theory Spec2Isabelle
  imports Complex_Main
begin

section \<open>relpos: position of the JFoV relative to the FFoV\<close>

text \<open>
  A shallow embedding of \<^verbatim>\<open>src/relpos.cpp\<close>. The C++ type \<^verbatim>\<open>double\<close> is
  idealised as \<^typ>\<open>real\<close>: every arithmetic operation and every comparison is the exact
  one, and the library functions \<^verbatim>\<open>sin\<close>, \<^verbatim>\<open>cos\<close>, \<^verbatim>\<open>sqrt\<close>, \<^verbatim>\<open>fabs\<close>
  are the mathematical ones. The decimal constants of the source are kept digit by digit, so
  \<open>PI360\<close> is a rational close to \<open>2 * pi\<close> and not \<open>2 * pi\<close> itself. Rounding is
  therefore outside the model: where the program rounds a sum or product to a neighbouring
  \<^verbatim>\<open>double\<close>, the model keeps the exact value. The C++ type
  \<^verbatim>\<open>int\<close> is \<^typ>\<open>int\<close> for the calendar fields and \<^typ>\<open>nat\<close> for vector
  indices (no vector of the program comes near \<open>2^31\<close> elements). Reading a vector out of
  range is undefined behaviour in C++; the model returns \<open>None\<close> there.
\<close>

subsection \<open>Macros\<close>

definition API :: real where
  "API = 3.141592653589793"

definition PI360 :: real where
  "PI360 = 6.283185307179586"

definition D2R :: real where
  "D2R = 0.017453292519943"

definition R2D :: real where
  "R2D = 57.295779513082323"

definition reduce :: "real \<Rightarrow> real \<Rightarrow> real" where
  "reduce x period = x - of_int \<lfloor>x / period\<rfloor> * period"

subsection \<open>Spherical geometry\<close>

text \<open>
  The C library's \<^verbatim>\<open>atan2(y, x)\<close>: the angle of the point \<open>(x, y)\<close> in \<open>(-pi, pi]\<close>,
  and \<open>0\<close> at the origin.
\<close>

definition atan2 :: "real \<Rightarrow> real \<Rightarrow> real" where
  "atan2 y x =
     (if 0 < x then arctan (y / x)
      else if x < 0 then (if 0 \<le> y then arctan (y / x) + pi else arctan (y / x) - pi)
      else if 0 < y then pi / 2
      else if y < 0 then - (pi / 2)
      else 0)"

definition Sphere2Cart :: "real \<Rightarrow> real \<Rightarrow> real \<Rightarrow> real \<times> real \<times> real" where
  "Sphere2Cart r alpha beta =
     (r * cos beta * cos alpha, r * cos beta * sin alpha, r * sin beta)"

text \<open>
  In the model \<open>alpha\<close> is strictly below \<open>PI360\<close>. In the program a tiny negative
  \<^verbatim>\<open>atan2\<close> result plus \<^verbatim>\<open>PI360\<close> rounds to \<^verbatim>\<open>PI360\<close>, so that the
  program's \<^verbatim>\<open>alpha\<close> lies in the closed interval from 0 to \<^verbatim>\<open>PI360\<close>.
\<close>

definition Cart2Sphere :: "real \<Rightarrow> real \<Rightarrow> real \<Rightarrow> real \<times> real \<times> real" where
  "Cart2Sphere x y z =
     (let r = sqrt (x * x + y * y + z * z);
          alpha0 = atan2 y x;
          alpha = (if alpha0 < 0 then alpha0 + PI360 else alpha0);
          beta = atan2 z (sqrt (x * x + y * y))
      in (r, alpha, beta))"

text \<open>
  \<open>RotateForward alpha0 beta0 alpha beta\<close> returns the new values of the two reference
  parameters \<^verbatim>\<open>alpha\<close> and \<^verbatim>\<open>beta\<close>.
\<close>

definition RotateForward :: "real \<Rightarrow> real \<Rightarrow> real \<Rightarrow> real \<Rightarrow> real \<times> real" where
  "RotateForward alpha0 beta0 alpha beta =
     (case Sphere2Cart 1 alpha beta of (x1, y1, z1) \<Rightarrow>
        let x2 = sin beta0 * cos alpha0 * x1 + sin beta0 * sin alpha0 * y1 - cos beta0 * z1;
            y2 = - sin alpha0 * x1 + cos alpha0 * y1;
            z2 = cos beta0 * cos alpha0 * x1 + cos beta0 * sin alpha0 * y1 + sin beta0 * z1
        in (case Cart2Sphere x2 y2 z2 of (r, alpha', beta') \<Rightarrow> (alpha', beta')))"

subsection \<open>Data structures\<close>

record PointRaw =
  ra :: real
  dc :: real
  ymd :: int
  hh :: int
  mm :: int
  ss :: int
  secs :: real
  fname :: string

record PointFile =
  cid :: string
  pts :: "PointRaw list"

text \<open>
  \<open>PointCross\<close>: the fields \<^verbatim>\<open>ra\<close>, \<^verbatim>\<open>dc\<close>, \<^verbatim>\<open>fname\<close> of the source (the JFoV
  side) are \<open>jra\<close>, \<open>jdc\<close>, \<open>jfname\<close> here, since \<open>PointRaw\<close> has fields of the same
  names.
\<close>

record PointCross =
  jra :: real
  jdc :: real
  jfname :: string
  ra0 :: real
  dc0 :: real
  fname0 :: string
  rot :: real
  tilt :: real

definition SetPoint :: "PointCross \<Rightarrow> PointRaw \<Rightarrow> PointCross" where
  "SetPoint c pt = c\<lparr>jra := ra pt, jdc := dc pt, jfname := fname pt\<rparr>"

definition SetPointRef :: "PointCross \<Rightarrow> PointRaw \<Rightarrow> PointCross" where
  "SetPointRef c pt =
     (let c1 = c\<lparr>ra0 := ra pt, dc0 := dc pt, fname0 := fname pt\<rparr>;
          c2 = c1\<lparr>rot := jra c1 * D2R\<rparr>;
          c3 = c2\<lparr>tilt := jdc c2 * D2R\<rparr>
      in (case RotateForward (ra0 c3 * D2R) (dc0 c3 * D2R) (rot c3) (tilt c3) of
            (a, b) \<Rightarrow>
              let c4 = c3\<lparr>rot := a, tilt := b\<rparr>;
                  c5 = c4\<lparr>rot := rot c4 * R2D\<rparr>
              in c5\<lparr>tilt := 90 - tilt c5 * R2D\<rparr>))"

text \<open>
  The object \<^verbatim>\<open>PointCross ptc;\<close> of \<^verbatim>\<open>ScanData\<close> before its two setters run. C++
  leaves its numbers indeterminate; the setters overwrite every field.
\<close>

definition ptc_fresh :: PointCross where
  "ptc_fresh = \<lparr>jra = 0, jdc = 0, jfname = [], ra0 = 0, dc0 = 0, fname0 = [], rot = 0, tilt = 0\<rparr>"

subsection \<open>Residual of the rotation in \<^verbatim>\<open>OutputResult\<close>\<close>

text \<open>
  Lines 398 to 400: \<^verbatim>\<open>drot = rot0 - pt->rot\<close>, then one step of wrapping. A row of the
  report holds the result record, \<^verbatim>\<open>drot\<close> and \<^verbatim>\<open>tilt0 - pt->tilt\<close>.
\<close>

definition drot_row :: "real \<Rightarrow> real \<Rightarrow> real" where
  "drot_row rot0 r =
     (let drot = rot0 - r
      in if drot > 180 then drot - 360
         else if drot < - 180 then drot + 360
         else drot)"

definition OutputResult_rows :: "real \<Rightarrow> real \<Rightarrow> PointCross list \<Rightarrow> (PointCross \<times> real \<times> real) list" where
  "OutputResult_rows rot0 tilt0 pt_cross =
     map (\<lambda>pt. (pt, drot_row rot0 (rot pt), tilt0 - tilt pt)) pt_cross"

subsection \<open>The matcher\<close>

text \<open>
  \<^verbatim>\<open>FindMatchedData\<close> reads the global \<^verbatim>\<open>pt_ffov.pts\<close>; the model takes it as
  the parameter \<open>fpts\<close>. \<open>FindMatchedData_loop\<close> is the \<^verbatim>\<open>for\<close> loop of lines 343
  to 348 with its variables \<^verbatim>\<open>dt0\<close>, \<^verbatim>\<open>from\<close> and \<^verbatim>\<open>i\<close>; it returns the final
  \<^verbatim>\<open>from\<close>, or \<open>None\<close> when it would read \<^verbatim>\<open>pts[i]\<close> out of range. The result
  \<open>- 1\<close> of \<open>FindMatchedData\<close> is the source's "no match".
\<close>

function FindMatchedData_loop :: "real \<Rightarrow> PointRaw list \<Rightarrow> nat \<Rightarrow> real \<Rightarrow> nat \<Rightarrow> nat \<Rightarrow> nat option" where
  "FindMatchedData_loop s fpts n dt0 from i =
     (if i < n then
        (if i < length fpts then
           (let dt1 = \<bar>s - secs (fpts ! i)\<bar>
            in if dt1 > dt0 then Some from
               else FindMatchedData_loop s fpts n dt1 i (Suc i))
         else None)
      else Some from)"
  by pat_completeness auto
termination
  by (relation "measure (\<lambda>(s, fpts, n, dt0, from, i). n - i)") auto

declare FindMatchedData_loop.simps [simp del]

definition FindMatchedData :: "PointRaw list \<Rightarrow> real \<Rightarrow> nat \<Rightarrow> nat \<Rightarrow> int option" where
  "FindMatchedData fpts s from n =
     (if from < length fpts then
        (case FindMatchedData_loop s fpts n \<bar>s - secs (fpts ! from)\<bar> from (Suc from) of
           None \<Rightarrow> None
         | Some k \<Rightarrow> Some (if \<bar>s - secs (fpts ! k)\<bar> > 10 then - 1 else int k))
      else None)"

text \<open>
  \<open>ScanData_loop\<close> is the \<^verbatim>\<open>for\<close> loop of \<^verbatim>\<open>ScanData\<close> over the remaining JFoV
  samples, with the cursor \<^verbatim>\<open>j\<close> and the global result vector \<^verbatim>\<open>pt_cross\<close> as state.
\<close>

fun ScanData_loop :: "PointRaw list \<Rightarrow> PointRaw list \<Rightarrow> nat \<Rightarrow> PointCross list \<Rightarrow> PointCross list option" where
  "ScanData_loop [] fpts j pt_cross = Some pt_cross"
| "ScanData_loop (pt # rest) fpts j pt_cross =
     (case FindMatchedData fpts (secs pt) j (length fpts) of
        None \<Rightarrow> None
      | Some k \<Rightarrow>
          if k \<ge> 0 then
            ScanData_loop rest fpts (nat k)
              (pt_cross @ [SetPointRef (SetPoint ptc_fresh pt) (fpts ! nat k)])
          else ScanData_loop rest fpts j pt_cross)"

definition ScanData :: "PointFile \<Rightarrow> PointFile \<Rightarrow> PointCross list option" where
  "ScanData pt_jfov pt_ffov = ScanData_loop (pts pt_jfov) (pts pt_ffov) 0 []"

subsection \<open>Vocabulary of the properties\<close>

text \<open>
  \<open>ScanData_matches\<close> runs the same loop as \<open>ScanData_loop\<close> and records, instead of
  the result records, the pairs (index of the JFoV sample, index of the matched FFoV sample);
  \<open>i\<close> is the index of the first remaining JFoV sample. Lemma \<open>ScanData_as_matches\<close>
  relates the two.
\<close>

fun ScanData_matches :: "nat \<Rightarrow> PointRaw list \<Rightarrow> PointRaw list \<Rightarrow> nat \<Rightarrow> (nat \<times> nat) list option" where
  "ScanData_matches i [] fpts j = Some []"
| "ScanData_matches i (pt # rest) fpts j =
     (case FindMatchedData fpts (secs pt) j (length fpts) of
        None \<Rightarrow> None
      | Some k \<Rightarrow>
          if k \<ge> 0 then map_option ((#) (i, nat k)) (ScanData_matches (Suc i) rest fpts (nat k))
          else ScanData_matches (Suc i) rest fpts j)"

text \<open>The time difference \<^verbatim>\<open>fabs(secs - pt_ffov.pts[m].secs)\<close>.\<close>

definition dt_at :: "real \<Rightarrow> PointRaw list \<Rightarrow> nat \<Rightarrow> real" where
  "dt_at s fpts m = \<bar>s - secs (fpts ! m)\<bar>"

text \<open>A raw point at a given second of the day, for the examples.\<close>

definition sample :: "real \<Rightarrow> PointRaw" where
  "sample t = \<lparr>ra = 0, dc = 0, ymd = 171028, hh = 0, mm = 0, ss = 0, secs = t, fname = []\<rparr>"

text \<open>The result record that \<^verbatim>\<open>ScanData\<close> builds for the pair \<open>(a, k)\<close>.\<close>

definition PointCross_of :: "PointRaw list \<Rightarrow> PointRaw list \<Rightarrow> nat \<times> nat \<Rightarrow> PointCross" where
  "PointCross_of jpts fpts = (\<lambda>(a, k). SetPointRef (SetPoint ptc_fresh (jpts ! a)) (fpts ! k))"

text \<open>A series in time order (constraint 2 of the source's header comment).\<close>

definition sorted_secs :: "PointRaw list \<Rightarrow> bool" where
  "sorted_secs ps = sorted (map secs ps)"

text \<open>
  The invariant of the cursor: for every JFoV sample still to come, if an FFoV sample before
  the cursor is within 10 seconds of it, then so is the sample under the cursor.
\<close>

definition cursor_ok :: "PointRaw list \<Rightarrow> nat \<Rightarrow> PointRaw list \<Rightarrow> bool" where
  "cursor_ok fpts j jp \<longleftrightarrow>
     (\<forall>p\<in>set jp. \<forall>m<j. dt_at (secs p) fpts m \<le> 10 \<longrightarrow> dt_at (secs p) fpts j \<le> 10)"

text \<open>
  Two small series for the examples: a JFoV series of camera 021 and an FFoV series of
  camera 020 of the same night.
\<close>

definition jfov_demo :: PointFile where
  "jfov_demo = \<lparr>cid = ''021'', pts =
     [\<lparr>ra = 10, dc = 20, ymd = 171028, hh = 1, mm = 0, ss = 0, secs = 3600,
        fname = ''G021_objt_171028T01000000.fit''\<rparr>,
      \<lparr>ra = 10.5, dc = 20.5, ymd = 171028, hh = 1, mm = 1, ss = 100, secs = 3661,
        fname = ''G021_objt_171028T01010100.fit''\<rparr>]\<rparr>"

definition ffov_demo :: PointFile where
  "ffov_demo = \<lparr>cid = ''020'', pts =
     [\<lparr>ra = 11, dc = 21, ymd = 171028, hh = 0, mm = 59, ss = 4000, secs = 3580,
        fname = ''G020_objt_171028T00594000.fit''\<rparr>,
      \<lparr>ra = 11.2, dc = 21.2, ymd = 171028, hh = 1, mm = 0, ss = 5000, secs = 3650,
        fname = ''G020_objt_171028T01005000.fit''\<rparr>,
      \<lparr>ra = 11.4, dc = 21.4, ymd = 171028, hh = 1, mm = 1, ss = 500, secs = 3665,
        fname = ''G020_objt_171028T01010500.fit''\<rparr>,
      \<lparr>ra = 11.6, dc = 21.6, ymd = 171028, hh = 1, mm = 1, ss = 4000, secs = 3700,
        fname = ''G020_objt_171028T01014000.fit''\<rparr>]\<rparr>"

subsection \<open>Statistics of \<^verbatim>\<open>OutputResult\<close>\<close>

text \<open>
  The loop of lines 414 to 431. \<open>unwrap_rot\<close> is its update of the local \<^verbatim>\<open>rot\<close> from
  the previous value and \<^verbatim>\<open>pt->rot\<close>; \<open>Stats\<close> holds the local variables, \<open>st_rot\<close>
  being \<^verbatim>\<open>rot\<close>; \<open>stats_loop pt_cross i\<close> is the state after \<open>i\<close> iterations. The source
  runs it only when \<^verbatim>\<open>n > 0\<close> (line 390, and \<^verbatim>\<open>main\<close> calls \<^verbatim>\<open>OutputResult\<close> only
  for a non-empty \<^verbatim>\<open>pt_cross\<close>), so \<^verbatim>\<open>pt_cross[0]\<close> exists.
\<close>

definition unwrap_rot :: "real \<Rightarrow> real \<Rightarrow> real" where
  "unwrap_rot rot_prev r =
     (let drot = r - rot_prev
      in if drot > 180 then r - 360
         else if drot < - 180 then r + 360
         else r)"

record Stats =
  st_rot :: real
  rsum :: real
  rsq :: real
  tsum :: real
  tsq :: real
  rmin :: real
  rmax :: real
  tmin :: real
  tmax :: real

definition stats_init :: "PointCross list \<Rightarrow> Stats" where
  "stats_init pt_cross =
     \<lparr>st_rot = rot (pt_cross ! 0), rsum = 0, rsq = 0, tsum = 0, tsq = 0,
      rmin = 10 ^ 30, rmax = - (10 ^ 30), tmin = 10 ^ 30, tmax = - (10 ^ 30)\<rparr>"

definition stats_step :: "Stats \<Rightarrow> PointCross \<Rightarrow> Stats" where
  "stats_step st pt =
     (let tl = tilt pt;
          rt = unwrap_rot (st_rot st) (rot pt)
      in \<lparr>st_rot = rt,
          rsum = rsum st + rt,
          rsq = rsq st + rt * rt,
          tsum = tsum st + tl,
          tsq = tsq st + tl * tl,
          rmin = (if rmin st > rt then rt else rmin st),
          rmax = (if rmax st < rt then rt else rmax st),
          tmin = (if tmin st > tl then tl else tmin st),
          tmax = (if tmax st < tl then tl else tmax st)\<rparr>)"

definition stats_loop :: "PointCross list \<Rightarrow> nat \<Rightarrow> Stats" where
  "stats_loop pt_cross i = foldl stats_step (stats_init pt_cross) (take i pt_cross)"

text \<open>
  The eight numbers printed after the loop: minimum, maximum and mean of the rotation
  reduced to \<open>[0, 360)\<close>, its standard deviation, and the same four for the tilt.
\<close>

definition OutputResult_stats ::
    "PointCross list \<Rightarrow> real \<times> real \<times> real \<times> real \<times> real \<times> real \<times> real \<times> real" where
  "OutputResult_stats pt_cross =
     (let n = real (length pt_cross);
          st = stats_loop pt_cross (length pt_cross);
          rmean = rsum st / n;
          tmean = tsum st / n;
          rrms = sqrt ((rsq st - rsum st * rmean) / n);
          trms = sqrt ((tsq st - tsum st * tmean) / n)
      in (reduce (rmin st) 360, reduce (rmax st) 360, reduce rmean 360, rrms,
          tmin st, tmax st, tmean, trms))"

text \<open>A result record with a given rotation, for the examples.\<close>

definition with_rot :: "real \<Rightarrow> PointCross" where
  "with_rot r = ptc_fresh\<lparr>rot := r\<rparr>"

subsection \<open>Time checks and \<^verbatim>\<open>main\<close>\<close>

text \<open>
  \<open>TimeCheck_loop\<close> is the \<^verbatim>\<open>for\<close> loop of \<^verbatim>\<open>TimeCheck\<close> and returns the final
  \<^verbatim>\<open>i\<close>. Both checks read \<^verbatim>\<open>pts[0]\<close>, which is undefined on an empty vector.
\<close>

function TimeCheck_loop :: "PointRaw list \<Rightarrow> nat \<Rightarrow> int \<Rightarrow> nat \<Rightarrow> nat" where
  "TimeCheck_loop ps n y i =
     (if i < n \<and> y = ymd (ps ! i) then TimeCheck_loop ps n y (Suc i) else i)"
  by pat_completeness auto
termination
  by (relation "measure (\<lambda>(ps, n, y, i). n - i)") auto

declare TimeCheck_loop.simps [simp del]

definition TimeCheck :: "PointFile \<Rightarrow> bool option" where
  "TimeCheck ptf =
     (let n = length (pts ptf)
      in if pts ptf = [] then None
         else Some (TimeCheck_loop (pts ptf) n (ymd (pts ptf ! 0)) 1 = n))"

definition TimeCrossCheck :: "PointFile \<Rightarrow> PointFile \<Rightarrow> bool option" where
  "TimeCrossCheck pt_jfov pt_ffov =
     (if pts pt_ffov = [] \<or> pts pt_jfov = [] then None
      else Some (ymd (pts pt_ffov ! 0) = ymd (pts pt_jfov ! 0)))"

text \<open>
  The operator \<^verbatim>\<open>&&\<close> of line 474 on operands that may be undefined: the right operand
  is evaluated only when the left one is true.
\<close>

definition and_then :: "bool option \<Rightarrow> bool option \<Rightarrow> bool option" where
  "and_then a b = (case a of None \<Rightarrow> None | Some False \<Rightarrow> Some False | Some True \<Rightarrow> b)"

text \<open>
  \<^verbatim>\<open>main\<close> from line 458 on. Reading the two files is outside the model: \<open>ok1\<close> and
  \<open>ok2\<close> are the results of the two calls of \<^verbatim>\<open>ResolveFile\<close>, and \<open>bjfov\<close>,
  \<open>bffov\<close>, \<open>pt_jfov\<close>, \<open>pt_ffov\<close>, \<open>pathDst\<close> the globals they leave; \<open>can_create\<close>
  says whether \<^verbatim>\<open>fopen(pathDst, "w")\<close> succeeds. The result is the exit code and the
  events of the run in order: a line printed by \<^verbatim>\<open>main\<close> (the fixed part of its text), the
  call of \<^verbatim>\<open>ScanData\<close>, the report on the console (rows and statistics), and the rows
  written to the file.
\<close>

datatype event =
    Print string
  | Scan
  | Report "(PointCross \<times> real \<times> real) list"
      "real \<times> real \<times> real \<times> real \<times> real \<times> real \<times> real \<times> real"
  | FileSaved string "(PointCross \<times> real \<times> real) list"

definition main :: "bool \<Rightarrow> bool \<Rightarrow> bool \<Rightarrow> bool \<Rightarrow> PointFile \<Rightarrow> PointFile \<Rightarrow> real \<Rightarrow> real \<Rightarrow>
    string \<Rightarrow> bool \<Rightarrow> (int \<times> event list) option" where
  "main ok1 ok2 bjfov bffov pt_jfov pt_ffov rot0 tilt0 pathDst can_create =
     (if \<not> ok1 then Some (- 2, [Print ''fail to resolve file''])
      else if \<not> ok2 then Some (- 2, [Print ''fail to resolve file''])
      else if \<not> bjfov then Some (- 3, [Print ''JFoV data is unavailable''])
      else if \<not> bffov then Some (- 3, [Print ''FFoV data is unavailable''])
      else
        (case and_then (TimeCheck pt_jfov) (and_then (TimeCheck pt_ffov) (TimeCrossCheck pt_jfov pt_ffov)) of
           None \<Rightarrow> None
         | Some False \<Rightarrow> Some (- 4, [Print ''time range do not match''])
         | Some True \<Rightarrow>
             (case ScanData pt_jfov pt_ffov of
                None \<Rightarrow> None
              | Some pt_cross \<Rightarrow>
                  if pt_cross = [] then Some (0, [Scan, Print ''no any data matches condition''])
                  else
                    Some (0, [Scan, Report (OutputResult_rows rot0 tilt0 pt_cross)
                                 (OutputResult_stats pt_cross)] @
                      (if can_create then
                         [Print ''results are saved as file'',
                          FileSaved pathDst (OutputResult_rows rot0 tilt0 pt_cross)]
                       else [Print ''failed to create result file''])))))"

text \<open>Every sample of a series has the calendar date of the first one.\<close>

definition single_date :: "PointRaw list \<Rightarrow> bool" where
  "single_date ps \<longleftrightarrow> (\<forall>p\<in>set ps. ymd p = ymd (ps ! 0))"

section \<open>Properties\<close>

subsection \<open>The residual of the rotation\<close>

text \<open>
  C4 (as stated, refuted): for a reference rotation and a computed rotation in \<open>[0,360)\<close>
  the residual would lie in \<open>(-180, 180]\<close>. Reference \<open>0\<close> and computed rotation \<open>180\<close>
  give the residual \<open>-180\<close>: the test \<^verbatim>\<open>drot < -180.0\<close> is strict, so \<open>-180\<close> is
  not wrapped.
\<close>

theorem C4_residual_open_at_minus_180_counterexample:
  "\<not> (- 180 < drot_row 0 180 \<and> drot_row 0 180 \<le> 180)"
  by (simp add: drot_row_def)

text \<open>
  C4 (amended): for a reference rotation and a computed rotation in \<open>[0,360)\<close>, the residual
  (reference minus computed, wrapped by adding or subtracting 360 at most once) lies in the
  closed interval \<open>[-180, 180]\<close>, it differs from reference minus computed by \<open>0\<close>, \<open>360\<close>
  or \<open>-360\<close>, and reference \<open>0\<close> with computed rotation \<open>350\<close> yields \<open>+10\<close>.
\<close>

theorem C4_residual_range:
  "(0 \<le> rot0 \<and> rot0 < 360 \<and> 0 \<le> r \<and> r < 360 \<longrightarrow>
      - 180 \<le> drot_row rot0 r \<and> drot_row rot0 r \<le> 180 \<and>
      drot_row rot0 r - (rot0 - r) \<in> {0, 360, - 360})
   \<and> drot_row 0 350 = 10"
  by (auto simp: drot_row_def Let_def)

theorem C4_residual_range_witness:
  "0 \<le> (10::real) \<and> (10::real) < 360 \<and> 0 \<le> (200::real) \<and> (200::real) < 360 \<and>
   - 180 \<le> drot_row 10 200 \<and> drot_row 10 200 \<le> 180 \<and> drot_row 10 200 = 170"
  using C4_residual_range [of 10 200] by (simp add: drot_row_def)

subsection \<open>The matcher: lemmas\<close>

lemma loop_spec:
  "i = Suc from \<Longrightarrow> dt0 = dt_at s fpts from \<Longrightarrow> from < n \<Longrightarrow> n \<le> length fpts \<Longrightarrow>
   \<exists>k. FindMatchedData_loop s fpts n dt0 from i = Some k \<and> from \<le> k \<and> k < n \<and>
       (\<forall>m. from \<le> m \<and> m < k \<longrightarrow> dt_at s fpts (Suc m) \<le> dt_at s fpts m) \<and>
       (Suc k < n \<longrightarrow> dt_at s fpts k < dt_at s fpts (Suc k))"
proof (induction s fpts n dt0 "from" i rule: FindMatchedData_loop.induct)
  case (1 s fpts n dt0 frm i)
  show ?case
  proof (cases "i < n")
    case False
    hence "FindMatchedData_loop s fpts n dt0 frm i = Some frm"
      by (subst FindMatchedData_loop.simps) simp
    moreover from False 1(2,4) have "\<not> Suc frm < n" by simp
    ultimately show ?thesis using 1(4) by auto
  next
    case True
    note iltn = this
    hence il: "i < length fpts" using 1 by simp
    show ?thesis
    proof (cases "dt_at s fpts i > dt0")
      case True
      hence "FindMatchedData_loop s fpts n dt0 frm i = Some frm"
        using iltn il by (subst FindMatchedData_loop.simps) (simp add: dt_at_def)
      moreover have "dt_at s fpts frm < dt_at s fpts (Suc frm)"
        using True 1(2,3) by simp
      ultimately show ?thesis using 1(4) by auto
    next
      case False
      hence nle: "\<not> dt0 < \<bar>s - secs (fpts ! i)\<bar>" by (simp add: dt_at_def)
      have dd: "\<bar>s - secs (fpts ! i)\<bar> = dt_at s fpts i" by (simp add: dt_at_def)
      from 1(1)[OF iltn il refl nle refl dd iltn 1(5)]
      obtain k where k: "FindMatchedData_loop s fpts n \<bar>s - secs (fpts ! i)\<bar> i (Suc i) = Some k"
        "i \<le> k" "k < n" "\<forall>m. i \<le> m \<and> m < k \<longrightarrow> dt_at s fpts (Suc m) \<le> dt_at s fpts m"
        "Suc k < n \<longrightarrow> dt_at s fpts k < dt_at s fpts (Suc k)"
        by blast
      have step: "dt_at s fpts (Suc frm) \<le> dt_at s fpts frm"
        using False 1(2,3) by simp
      have "\<forall>m. frm \<le> m \<and> m < k \<longrightarrow> dt_at s fpts (Suc m) \<le> dt_at s fpts m"
      proof (intro allI impI)
        fix m assume m: "frm \<le> m \<and> m < k"
        show "dt_at s fpts (Suc m) \<le> dt_at s fpts m"
        proof (cases "m = frm")
          case True thus ?thesis using step by simp
        next
          case False
          hence "i \<le> m" using m 1(2) by simp
          thus ?thesis using k(4) m by simp
        qed
      qed
      moreover have "FindMatchedData_loop s fpts n dt0 frm i = Some k"
        using k(1) nle iltn il
        by (subst FindMatchedData_loop.simps) simp
      ultimately show ?thesis using k(2,3,5) 1(2) by auto
    qed
  qed
qed

lemma FindMatchedData_spec:
  assumes "from < length fpts"
  shows "\<exists>k. FindMatchedData_loop s fpts (length fpts) (dt_at s fpts from) from (Suc from) = Some k \<and>
       from \<le> k \<and> k < length fpts \<and>
       (\<forall>m. from \<le> m \<and> m < k \<longrightarrow> dt_at s fpts (Suc m) \<le> dt_at s fpts m) \<and>
       (Suc k < length fpts \<longrightarrow> dt_at s fpts k < dt_at s fpts (Suc k)) \<and>
       FindMatchedData fpts s from (length fpts) = Some (if dt_at s fpts k > 10 then - 1 else int k)"
proof -
  from loop_spec [OF refl refl assms order_refl, of s]
  obtain k where k: "FindMatchedData_loop s fpts (length fpts) (dt_at s fpts from) from (Suc from) = Some k"
    "from \<le> k" "k < length fpts"
    "\<forall>m. from \<le> m \<and> m < k \<longrightarrow> dt_at s fpts (Suc m) \<le> dt_at s fpts m"
    "Suc k < length fpts \<longrightarrow> dt_at s fpts k < dt_at s fpts (Suc k)"
    by blast
  have "FindMatchedData fpts s from (length fpts) = Some (if dt_at s fpts k > 10 then - 1 else int k)"
    using assms k(1) by (simp add: FindMatchedData_def dt_at_def)
  with k show ?thesis by blast
qed

lemma chain_le:
  assumes dec: "\<forall>m. from \<le> m \<and> m < k \<longrightarrow> f (Suc m) \<le> (f m :: real)"
    and fm: "from \<le> m" and mk: "m \<le> k"
  shows "f k \<le> f m"
proof -
  have "m \<le> x \<Longrightarrow> x \<le> k \<Longrightarrow> f x \<le> f m" for x
  proof (induction x)
    case 0
    then show ?case by simp
  next
    case (Suc x)
    show ?case
    proof (cases "m = Suc x")
      case True
      then show ?thesis by simp
    next
      case False
      with Suc.prems have mx: "m \<le> x" "x < k" by simp_all
      with Suc.IH have "f x \<le> f m" by simp
      moreover from dec fm mx have "f (Suc x) \<le> f x" by simp
      ultimately show ?thesis by simp
    qed
  qed
  from this [OF mk order_refl] show ?thesis .
qed

lemma sorted_secs_nth: "sorted_secs ps \<Longrightarrow> a \<le> b \<Longrightarrow> b < length ps \<Longrightarrow> secs (ps ! a) \<le> secs (ps ! b)"
  unfolding sorted_secs_def using sorted_nth_mono [of "map secs ps" a b] by simp

lemma nearest_from_cursor:
  assumes srt: "sorted_secs fpts" and k: "k < length fpts"
    and dec: "\<forall>m. from \<le> m \<and> m < k \<longrightarrow> dt_at s fpts (Suc m) \<le> dt_at s fpts m"
    and inc: "Suc k < length fpts \<longrightarrow> dt_at s fpts k < dt_at s fpts (Suc k)"
    and m: "from \<le> m" "m < length fpts"
  shows "dt_at s fpts k \<le> dt_at s fpts m"
proof (cases "m \<le> k")
  case True
  with chain_le [OF dec m(1)] show ?thesis by simp
next
  case False
  hence km: "Suc k \<le> m" by simp
  hence sk: "Suc k < length fpts" using m by simp
  with inc have lt: "dt_at s fpts k < dt_at s fpts (Suc k)" by simp
  have t1: "secs (fpts ! k) \<le> secs (fpts ! Suc k)"
    using sorted_secs_nth [OF srt, of k "Suc k"] sk by simp
  have t2: "secs (fpts ! Suc k) \<le> secs (fpts ! m)"
    using sorted_secs_nth [OF srt km m(2)] .
  from lt t1 t2 show ?thesis unfolding dt_at_def by linarith
qed

lemma FindMatchedData_cases:
  assumes "j < length fpts"
  obtains (dropped) "FindMatchedData fpts s j (length fpts) = Some (- 1)"
  | (matched) k where "FindMatchedData fpts s j (length fpts) = Some (int k)"
      "j \<le> k" "k < length fpts" "dt_at s fpts k \<le> 10"
proof -
  from FindMatchedData_spec [OF assms, of s] obtain k where
    k: "j \<le> k" "k < length fpts"
    "FindMatchedData fpts s j (length fpts) = Some (if dt_at s fpts k > 10 then - 1 else int k)"
    by blast
  show thesis
  proof (cases "dt_at s fpts k > 10")
    case True
    with k(3) dropped show ?thesis by simp
  next
    case False
    with k matched [of k] show ?thesis by simp
  qed
qed

lemma ScanData_loop_matches:
  "i \<le> length jpts \<Longrightarrow>
   ScanData_loop (drop i jpts) fpts j acc =
     map_option (\<lambda>ms. acc @ map (PointCross_of jpts fpts) ms)
       (ScanData_matches i (drop i jpts) fpts j)"
proof (induction "length jpts - i" arbitrary: i j acc)
  case 0
  then show ?case by simp
next
  case (Suc d)
  hence il: "i < length jpts" by simp
  hence dr: "drop i jpts = jpts ! i # drop (Suc i) jpts"
    by (simp add: Cons_nth_drop_Suc)
  have d: "d = length jpts - Suc i" using Suc.hyps(2) by simp
  have sl: "Suc i \<le> length jpts" using il by simp
  note IH = Suc.hyps(1) [OF d sl]
  show ?case
  proof (cases "FindMatchedData fpts (secs (jpts ! i)) j (length fpts)")
    case None
    then show ?thesis by (simp add: dr)
  next
    case (Some k)
    show ?thesis
    proof (cases "0 \<le> k")
      case True
      with Some show ?thesis
        by (simp add: dr IH option.map_comp comp_def PointCross_of_def)
    next
      case False
      with Some show ?thesis
        by (simp add: dr IH)
    qed
  qed
qed

lemma ScanData_matches_mono:
  "j < length fpts \<Longrightarrow>
   \<exists>ms. ScanData_matches i jp fpts j = Some ms \<and> sorted (map snd ms) \<and>
     (\<forall>k\<in>set (map snd ms). j \<le> k \<and> k < length fpts) \<and>
     sorted_wrt (<) (map fst ms) \<and>
     (\<forall>a\<in>set (map fst ms). i \<le> a \<and> a < i + length jp)"
proof (induction jp arbitrary: i j)
  case Nil
  then show ?case by simp
next
  case (Cons pt rest)
  consider (dropped) "FindMatchedData fpts (secs pt) j (length fpts) = Some (- 1)"
    | (matched) k where "FindMatchedData fpts (secs pt) j (length fpts) = Some (int k)"
        "j \<le> k" "k < length fpts" "dt_at (secs pt) fpts k \<le> 10"
    by (rule FindMatchedData_cases [OF Cons.prems, of "secs pt"]) blast+
  then show ?case
  proof cases
    case dropped
    from Cons.IH [OF Cons.prems, of "Suc i"] obtain ms where
      ms: "ScanData_matches (Suc i) rest fpts j = Some ms" "sorted (map snd ms)"
      "\<forall>k\<in>set (map snd ms). j \<le> k \<and> k < length fpts" "sorted_wrt (<) (map fst ms)"
      "\<forall>a\<in>set (map fst ms). Suc i \<le> a \<and> a < Suc i + length rest"
      by blast
    have "ScanData_matches i (pt # rest) fpts j = Some ms"
      using dropped ms(1) by simp
    moreover have "\<forall>a\<in>set (map fst ms). i \<le> a \<and> a < i + length (pt # rest)"
      using ms(5) by auto
    ultimately show ?thesis using ms(2,3,4) by blast
  next
    case (matched k)
    from Cons.IH [OF matched(3), of "Suc i"] obtain ms where
      ms: "ScanData_matches (Suc i) rest fpts k = Some ms" "sorted (map snd ms)"
      "\<forall>k'\<in>set (map snd ms). k \<le> k' \<and> k' < length fpts" "sorted_wrt (<) (map fst ms)"
      "\<forall>a\<in>set (map fst ms). Suc i \<le> a \<and> a < Suc i + length rest"
      by blast
    have "ScanData_matches i (pt # rest) fpts j = Some ((i, k) # ms)"
      using matched(1) ms(1) by simp
    moreover have "sorted (map snd ((i, k) # ms))"
      using ms(2,3) by simp
    moreover have "\<forall>k'\<in>set (map snd ((i, k) # ms)). j \<le> k' \<and> k' < length fpts"
      using ms(3) matched(2,3) by auto
    moreover have "sorted_wrt (<) (map fst ((i, k) # ms))"
      using ms(4,5) by auto
    moreover have "\<forall>a\<in>set (map fst ((i, k) # ms)). i \<le> a \<and> a < i + length (pt # rest)"
      using ms(5) by auto
    ultimately show ?thesis by blast
  qed
qed

lemma FindMatchedData_dropped_sorted:
  assumes srt: "sorted_secs fpts" and j: "j < length fpts"
    and dr: "FindMatchedData fpts s j (length fpts) = Some (- 1)"
    and m: "j \<le> m" "m < length fpts"
  shows "10 < dt_at s fpts m"
proof -
  from FindMatchedData_spec [OF j, of s] obtain k where
    k: "j \<le> k" "k < length fpts"
    "\<forall>m. j \<le> m \<and> m < k \<longrightarrow> dt_at s fpts (Suc m) \<le> dt_at s fpts m"
    "Suc k < length fpts \<longrightarrow> dt_at s fpts k < dt_at s fpts (Suc k)"
    "FindMatchedData fpts s j (length fpts) = Some (if dt_at s fpts k > 10 then - 1 else int k)"
    by blast
  have big: "10 < dt_at s fpts k"
  proof (rule ccontr)
    assume "\<not> 10 < dt_at s fpts k"
    with k(5) dr have "int k = - 1" by simp
    then show False by simp
  qed
  from nearest_from_cursor [OF srt k(2) k(3) k(4) m] big show ?thesis by simp
qed

lemma cursor_ok_advance:
  assumes srt: "sorted_secs fpts" and k: "k < length fpts"
    and near: "dt_at s fpts k \<le> 10"
    and later: "\<forall>p\<in>set rest. s \<le> secs p"
  shows "cursor_ok fpts k rest"
  unfolding cursor_ok_def
proof (intro ballI allI impI)
  fix p m
  assume p: "p \<in> set rest" and m: "m < k" and d: "dt_at (secs p) fpts m \<le> 10"
  from later p have sp: "s \<le> secs p" by simp
  have t: "secs (fpts ! m) \<le> secs (fpts ! k)"
    using sorted_secs_nth [OF srt _ k, of m] m by simp
  from near d sp t show "dt_at (secs p) fpts k \<le> 10"
    unfolding dt_at_def by linarith
qed

lemma ScanData_matches_gap:
  assumes srt: "sorted_secs fpts"
  shows "sorted_secs jp \<Longrightarrow> j < length fpts \<Longrightarrow> cursor_ok fpts j jp \<Longrightarrow>
     jp = drop i jpts \<Longrightarrow>
     \<exists>ms. ScanData_matches i jp fpts j = Some ms \<and>
       (\<forall>(a, k)\<in>set ms. a < length jpts \<and> k < length fpts \<and>
           dt_at (secs (jpts ! a)) fpts k \<le> 10) \<and>
       (\<forall>a. i \<le> a \<and> a < length jpts \<and> a \<notin> fst ` set ms \<longrightarrow>
           (\<forall>m<length fpts. 10 < dt_at (secs (jpts ! a)) fpts m))"
proof (induction jp arbitrary: i j)
  case Nil
  hence "length jpts \<le> i" by simp
  then show ?case by simp
next
  case (Cons pt rest)
  have il: "i < length jpts"
  proof (rule ccontr)
    assume "\<not> i < length jpts"
    hence "drop i jpts = []" by simp
    with Cons.prems(4) show False by simp
  qed
  hence "drop i jpts = jpts ! i # drop (Suc i) jpts"
    by (simp add: Cons_nth_drop_Suc)
  with Cons.prems(4) have pt: "pt = jpts ! i" and rest: "rest = drop (Suc i) jpts"
    by simp_all
  from Cons.prems(1) have srest: "sorted_secs rest" and later: "\<forall>p\<in>set rest. secs pt \<le> secs p"
    by (simp_all add: sorted_secs_def)
  consider (dropped) "FindMatchedData fpts (secs pt) j (length fpts) = Some (- 1)"
    | (matched) k where "FindMatchedData fpts (secs pt) j (length fpts) = Some (int k)"
        "j \<le> k" "k < length fpts" "dt_at (secs pt) fpts k \<le> 10"
    by (rule FindMatchedData_cases [OF Cons.prems(2), of "secs pt"]) blast+
  then show ?case
  proof cases
    case dropped
    have ok: "cursor_ok fpts j rest"
      using Cons.prems(3) by (simp add: cursor_ok_def)
    from Cons.IH [OF srest Cons.prems(2) ok rest] obtain ms where
      ms: "ScanData_matches (Suc i) rest fpts j = Some ms"
      "\<forall>(a, k)\<in>set ms. a < length jpts \<and> k < length fpts \<and> dt_at (secs (jpts ! a)) fpts k \<le> 10"
      "\<forall>a. Suc i \<le> a \<and> a < length jpts \<and> a \<notin> fst ` set ms \<longrightarrow>
           (\<forall>m<length fpts. 10 < dt_at (secs (jpts ! a)) fpts m)"
      by blast
    have far: "10 < dt_at (secs pt) fpts m" if "m < length fpts" for m
    proof (cases "j \<le> m")
      case True
      from FindMatchedData_dropped_sorted [OF srt Cons.prems(2) dropped True that]
      show ?thesis .
    next
      case False
      hence mj: "m < j" by simp
      have "10 < dt_at (secs pt) fpts j"
        using FindMatchedData_dropped_sorted [OF srt Cons.prems(2) dropped order_refl Cons.prems(2)] .
      with Cons.prems(3) mj show ?thesis
        by (fastforce simp: cursor_ok_def)
    qed
    have "ScanData_matches i (pt # rest) fpts j = Some ms"
      using dropped ms(1) by simp
    moreover have "\<forall>a. i \<le> a \<and> a < length jpts \<and> a \<notin> fst ` set ms \<longrightarrow>
           (\<forall>m<length fpts. 10 < dt_at (secs (jpts ! a)) fpts m)"
    proof (intro allI impI)
      fix a m
      assume a: "i \<le> a \<and> a < length jpts \<and> a \<notin> fst ` set ms" and m: "m < length fpts"
      show "10 < dt_at (secs (jpts ! a)) fpts m"
      proof (cases "a = i")
        case True
        with far [OF m] pt show ?thesis by simp
      next
        case False
        with a have "Suc i \<le> a" by simp
        with ms(3) a m show ?thesis by blast
      qed
    qed
    ultimately show ?thesis using ms(2) by blast
  next
    case (matched k)
    have ok: "cursor_ok fpts k rest"
      using cursor_ok_advance [OF srt matched(3) matched(4) later] .
    from Cons.IH [OF srest matched(3) ok rest] obtain ms where
      ms: "ScanData_matches (Suc i) rest fpts k = Some ms"
      "\<forall>(a, k)\<in>set ms. a < length jpts \<and> k < length fpts \<and> dt_at (secs (jpts ! a)) fpts k \<le> 10"
      "\<forall>a. Suc i \<le> a \<and> a < length jpts \<and> a \<notin> fst ` set ms \<longrightarrow>
           (\<forall>m<length fpts. 10 < dt_at (secs (jpts ! a)) fpts m)"
      by blast
    have "ScanData_matches i (pt # rest) fpts j = Some ((i, k) # ms)"
      using matched(1) ms(1) by simp
    moreover have "\<forall>(a, k)\<in>set ((i, k) # ms). a < length jpts \<and> k < length fpts \<and>
        dt_at (secs (jpts ! a)) fpts k \<le> 10"
      using ms(2) il matched(3,4) pt by simp
    moreover have "\<forall>a. i \<le> a \<and> a < length jpts \<and> a \<notin> fst ` set ((i, k) # ms) \<longrightarrow>
           (\<forall>m<length fpts. 10 < dt_at (secs (jpts ! a)) fpts m)"
    proof (intro allI impI)
      fix a m
      assume a: "i \<le> a \<and> a < length jpts \<and> a \<notin> fst ` set ((i, k) # ms)" and m: "m < length fpts"
      hence "a \<noteq> i" by auto
      with a have "Suc i \<le> a" "a \<notin> fst ` set ms" by auto
      with ms(3) a m show "10 < dt_at (secs (jpts ! a)) fpts m" by blast
    qed
    ultimately show ?thesis by blast
  qed
qed

lemma SetPointRef_SetPoint_fields:
  "jra (SetPointRef (SetPoint c pt) pt0) = ra pt \<and>
   jdc (SetPointRef (SetPoint c pt) pt0) = dc pt \<and>
   jfname (SetPointRef (SetPoint c pt) pt0) = fname pt \<and>
   ra0 (SetPointRef (SetPoint c pt) pt0) = ra pt0 \<and>
   dc0 (SetPointRef (SetPoint c pt) pt0) = dc pt0 \<and>
   fname0 (SetPointRef (SetPoint c pt) pt0) = fname pt0"
  by (simp add: SetPointRef_def SetPoint_def Let_def split: prod.splits)

lemma ScanData_as_matches:
  "ScanData pt_jfov pt_ffov =
     map_option (map (PointCross_of (pts pt_jfov) (pts pt_ffov)))
       (ScanData_matches 0 (pts pt_jfov) (pts pt_ffov) 0)"
  using ScanData_loop_matches [of 0 "pts pt_jfov" "pts pt_ffov" 0 "[]"]
  by (simp add: ScanData_def)

lemmas eval_matcher =
  FindMatchedData_def FindMatchedData_loop.simps sample_def

lemma demo_matches:
  "ScanData_matches 0 (pts jfov_demo) (pts ffov_demo) 0 = Some [(1, 2)]"
  by (simp add: jfov_demo_def ffov_demo_def FindMatchedData_def FindMatchedData_loop.simps)

subsection \<open>The matcher: gap bound, monotonicity, scan rule, copied fields\<close>

text \<open>
  C5: for time-sorted JFoV and FFoV series (FFoV not empty) and the 10 second limit of
  \<open>FindMatchedData\<close>, the scan returns; every emitted pair \<open>(a, k)\<close> has
  \<open>\<bar>secs (jfov ! a) - secs (ffov ! k)\<bar> \<le> 10\<close>; and for every JFoV sample that is dropped
  (its index is in no emitted pair) every FFoV sample is more than 10 seconds away. A JFoV
  sample at 3661 with FFoV samples at 3650 and 3665 is matched to index 1 (3665, 4 seconds
  away); a JFoV sample at 3600 with FFoV samples at 3580 and 3700 is dropped
  (\<open>FindMatchedData\<close> returns \<open>- 1\<close>).
\<close>

theorem C5_matcher_gap_bound:
  "(sorted_secs (pts pt_jfov) \<and> sorted_secs (pts pt_ffov) \<and> pts pt_ffov \<noteq> [] \<longrightarrow>
    (\<exists>ms. ScanData_matches 0 (pts pt_jfov) (pts pt_ffov) 0 = Some ms \<and>
       ScanData pt_jfov pt_ffov = Some (map (PointCross_of (pts pt_jfov) (pts pt_ffov)) ms) \<and>
       (\<forall>(a, k)\<in>set ms. a < length (pts pt_jfov) \<and> k < length (pts pt_ffov) \<and>
           \<bar>secs (pts pt_jfov ! a) - secs (pts pt_ffov ! k)\<bar> \<le> 10) \<and>
       (\<forall>a<length (pts pt_jfov). a \<notin> fst ` set ms \<longrightarrow>
           (\<forall>m<length (pts pt_ffov). 10 < \<bar>secs (pts pt_jfov ! a) - secs (pts pt_ffov ! m)\<bar>))))
   \<and> FindMatchedData [sample 3650, sample 3665] 3661 0 2 = Some 1
   \<and> ScanData_matches 0 [sample 3661] [sample 3650, sample 3665] 0 = Some [(0, 1)]
   \<and> FindMatchedData [sample 3580, sample 3700] 3600 0 2 = Some (- 1)
   \<and> ScanData_matches 0 [sample 3600] [sample 3580, sample 3700] 0 = Some []"
proof (intro conjI impI)
  assume a: "sorted_secs (pts pt_jfov) \<and> sorted_secs (pts pt_ffov) \<and> pts pt_ffov \<noteq> []"
  hence sj: "sorted_secs (pts pt_jfov)" and sf: "sorted_secs (pts pt_ffov)"
    and l: "0 < length (pts pt_ffov)" by simp_all
  have ok: "cursor_ok (pts pt_ffov) 0 (pts pt_jfov)" by (simp add: cursor_ok_def)
  from ScanData_matches_gap [OF sf sj l ok, of 0 "pts pt_jfov"] obtain ms where
    ms: "ScanData_matches 0 (pts pt_jfov) (pts pt_ffov) 0 = Some ms"
    "\<forall>(a, k)\<in>set ms. a < length (pts pt_jfov) \<and> k < length (pts pt_ffov) \<and>
           dt_at (secs (pts pt_jfov ! a)) (pts pt_ffov) k \<le> 10"
    "\<forall>a. 0 \<le> a \<and> a < length (pts pt_jfov) \<and> a \<notin> fst ` set ms \<longrightarrow>
           (\<forall>m<length (pts pt_ffov). 10 < dt_at (secs (pts pt_jfov ! a)) (pts pt_ffov) m)"
    by auto
  have "ScanData pt_jfov pt_ffov = Some (map (PointCross_of (pts pt_jfov) (pts pt_ffov)) ms)"
    using ms(1) by (simp add: ScanData_as_matches)
  with ms show "\<exists>ms. ScanData_matches 0 (pts pt_jfov) (pts pt_ffov) 0 = Some ms \<and>
       ScanData pt_jfov pt_ffov = Some (map (PointCross_of (pts pt_jfov) (pts pt_ffov)) ms) \<and>
       (\<forall>(a, k)\<in>set ms. a < length (pts pt_jfov) \<and> k < length (pts pt_ffov) \<and>
           \<bar>secs (pts pt_jfov ! a) - secs (pts pt_ffov ! k)\<bar> \<le> 10) \<and>
       (\<forall>a<length (pts pt_jfov). a \<notin> fst ` set ms \<longrightarrow>
           (\<forall>m<length (pts pt_ffov). 10 < \<bar>secs (pts pt_jfov ! a) - secs (pts pt_ffov ! m)\<bar>))"
    unfolding dt_at_def by (intro exI [of _ ms]) simp
next
  show "FindMatchedData [sample 3650, sample 3665] 3661 0 2 = Some 1"
    by (simp add: eval_matcher)
next
  show "ScanData_matches 0 [sample 3661] [sample 3650, sample 3665] 0 = Some [(0, 1)]"
    by (simp add: eval_matcher)
next
  show "FindMatchedData [sample 3580, sample 3700] 3600 0 2 = Some (- 1)"
    by (simp add: eval_matcher)
next
  show "ScanData_matches 0 [sample 3600] [sample 3580, sample 3700] 0 = Some []"
    by (simp add: eval_matcher)
qed

theorem C5_matcher_gap_bound_witness:
  "sorted_secs (pts jfov_demo) \<and> sorted_secs (pts ffov_demo) \<and> pts ffov_demo \<noteq> [] \<and>
   (\<exists>ms. ScanData_matches 0 (pts jfov_demo) (pts ffov_demo) 0 = Some ms \<and> ms = [(1, 2)] \<and>
       (\<forall>(a, k)\<in>set ms.
           \<bar>secs (pts jfov_demo ! a) - secs (pts ffov_demo ! k)\<bar> \<le> 10) \<and>
       (\<forall>a<length (pts jfov_demo). a \<notin> fst ` set ms \<longrightarrow>
           (\<forall>m<length (pts ffov_demo). 10 < \<bar>secs (pts jfov_demo ! a) - secs (pts ffov_demo ! m)\<bar>)))"
proof -
  have h: "sorted_secs (pts jfov_demo) \<and> sorted_secs (pts ffov_demo) \<and> pts ffov_demo \<noteq> []"
    by (simp add: sorted_secs_def jfov_demo_def ffov_demo_def)
  from C5_matcher_gap_bound [of jfov_demo ffov_demo] h
  obtain ms where
    r: "ScanData_matches 0 (pts jfov_demo) (pts ffov_demo) 0 = Some ms"
    "\<forall>(a, k)\<in>set ms. a < length (pts jfov_demo) \<and> k < length (pts ffov_demo) \<and>
           \<bar>secs (pts jfov_demo ! a) - secs (pts ffov_demo ! k)\<bar> \<le> 10"
    "\<forall>a<length (pts jfov_demo). a \<notin> fst ` set ms \<longrightarrow>
           (\<forall>m<length (pts ffov_demo). 10 < \<bar>secs (pts jfov_demo ! a) - secs (pts ffov_demo ! m)\<bar>)"
    by blast
  from r(1) demo_matches have ms: "ms = [(1, 2)]" by simp
  from r(2) have "\<forall>(a, k)\<in>set ms.
           \<bar>secs (pts jfov_demo ! a) - secs (pts ffov_demo ! k)\<bar> \<le> 10"
    by auto
  with h r(1,3) ms show ?thesis by blast
qed

text \<open>
  C6: whenever the FFoV series is not empty, the scan returns and the FFoV indices of the
  successively emitted pairs are non-decreasing: the pairs come in increasing order of the
  JFoV index, and a pair emitted later never has a smaller FFoV index. No assumption on the
  times is needed.
\<close>

theorem C6_ffov_indices_non_decreasing:
  "pts pt_ffov \<noteq> [] \<longrightarrow>
   (\<exists>ms. ScanData_matches 0 (pts pt_jfov) (pts pt_ffov) 0 = Some ms \<and>
      ScanData pt_jfov pt_ffov = Some (map (PointCross_of (pts pt_jfov) (pts pt_ffov)) ms) \<and>
      sorted_wrt (<) (map fst ms) \<and>
      sorted (map snd ms) \<and>
      (\<forall>m n. m \<le> n \<and> n < length ms \<longrightarrow> snd (ms ! m) \<le> snd (ms ! n)))"
proof
  assume "pts pt_ffov \<noteq> []"
  hence "0 < length (pts pt_ffov)" by simp
  from ScanData_matches_mono [OF this, of 0 "pts pt_jfov"] obtain ms where
    ms: "ScanData_matches 0 (pts pt_jfov) (pts pt_ffov) 0 = Some ms"
    "sorted (map snd ms)" "sorted_wrt (<) (map fst ms)"
    by blast
  have "ScanData pt_jfov pt_ffov = Some (map (PointCross_of (pts pt_jfov) (pts pt_ffov)) ms)"
    using ms(1) by (simp add: ScanData_as_matches)
  moreover have "\<forall>m n. m \<le> n \<and> n < length ms \<longrightarrow> snd (ms ! m) \<le> snd (ms ! n)"
    using sorted_nth_mono [OF ms(2)] by auto
  ultimately show "\<exists>ms. ScanData_matches 0 (pts pt_jfov) (pts pt_ffov) 0 = Some ms \<and>
      ScanData pt_jfov pt_ffov = Some (map (PointCross_of (pts pt_jfov) (pts pt_ffov)) ms) \<and>
      sorted_wrt (<) (map fst ms) \<and>
      sorted (map snd ms) \<and>
      (\<forall>m n. m \<le> n \<and> n < length ms \<longrightarrow> snd (ms ! m) \<le> snd (ms ! n))"
    using ms by blast
qed

theorem C6_ffov_indices_non_decreasing_witness:
  "pts \<lparr>cid = ''020'', pts = [sample 3580, sample 3650, sample 3665, sample 3700]\<rparr> \<noteq> [] \<and>
   ScanData_matches 0 [sample 3600, sample 3661, sample 3670]
      [sample 3580, sample 3650, sample 3665, sample 3700] 0 = Some [(1, 2), (2, 2)] \<and>
   (\<exists>ms. ScanData \<lparr>cid = ''021'', pts = [sample 3600, sample 3661, sample 3670]\<rparr>
             \<lparr>cid = ''020'', pts = [sample 3580, sample 3650, sample 3665, sample 3700]\<rparr> =
          Some (map (PointCross_of [sample 3600, sample 3661, sample 3670]
                  [sample 3580, sample 3650, sample 3665, sample 3700]) ms) \<and>
        sorted (map snd ms))"
proof -
  have h: "pts \<lparr>cid = ''020'', pts = [sample 3580, sample 3650, sample 3665, sample 3700]\<rparr> \<noteq> []"
    by simp
  have e: "ScanData_matches 0 [sample 3600, sample 3661, sample 3670]
      [sample 3580, sample 3650, sample 3665, sample 3700] 0 = Some [(1, 2), (2, 2)]"
    by (simp add: eval_matcher)
  from C6_ffov_indices_non_decreasing
    [of "\<lparr>cid = ''020'', pts = [sample 3580, sample 3650, sample 3665, sample 3700]\<rparr>"
        "\<lparr>cid = ''021'', pts = [sample 3600, sample 3661, sample 3670]\<rparr>"] h
  have "\<exists>ms. ScanData \<lparr>cid = ''021'', pts = [sample 3600, sample 3661, sample 3670]\<rparr>
             \<lparr>cid = ''020'', pts = [sample 3580, sample 3650, sample 3665, sample 3700]\<rparr> =
          Some (map (PointCross_of [sample 3600, sample 3661, sample 3670]
                  [sample 3580, sample 3650, sample 3665, sample 3700]) ms) \<and>
        sorted (map snd ms)"
    by auto
  with h e show ?thesis by blast
qed

text \<open>
  C7 (as stated, refuted): when two consecutive FFoV samples are equidistant from the JFoV
  time, the scan would stop at the earlier one. With FFoV samples at 0 and 10 and the JFoV
  time 5 both differences are 5, and the scan returns index 1, the later one: the loop leaves
  only on \<^verbatim>\<open>dt1 > dt0\<close>, so it also advances when the difference stays equal.
\<close>

theorem C7_stops_at_earlier_of_tie_counterexample:
  "\<not> (dt_at 5 [sample 0, sample 10] 0 = dt_at 5 [sample 0, sample 10] 1 \<longrightarrow>
       FindMatchedData [sample 0, sample 10] 5 0 2 = Some 0)"
  by (simp add: FindMatchedData_def FindMatchedData_loop.simps sample_def dt_at_def)

text \<open>
  C7 (amended): from a cursor inside the FFoV series the scan returns an index \<open>k\<close> at or
  after the cursor such that the absolute time difference does not increase at any step from
  the cursor to \<open>k\<close>, and, unless \<open>k\<close> is the last index, strictly increases from \<open>k\<close>
  to \<open>k + 1\<close>: the cursor advances one sample at a time while the difference does not
  increase and stops at the first strict increase. In particular, when the sample after the
  cursor is as far from the JFoV time as the sample under the cursor, the scan moves past the
  earlier one. \<open>FindMatchedData\<close> then returns \<open>k\<close>, or \<open>- 1\<close> when the difference at
  \<open>k\<close> exceeds 10.
\<close>

theorem C7_scan_stops_at_first_increase:
  "from < length fpts \<longrightarrow>
   (\<exists>k. FindMatchedData_loop s fpts (length fpts) (dt_at s fpts from) from (Suc from) = Some k \<and>
        from \<le> k \<and> k < length fpts \<and>
        (\<forall>m. from \<le> m \<and> m < k \<longrightarrow> dt_at s fpts (Suc m) \<le> dt_at s fpts m) \<and>
        (Suc k < length fpts \<longrightarrow> dt_at s fpts k < dt_at s fpts (Suc k)) \<and>
        (Suc from < length fpts \<and> dt_at s fpts (Suc from) = dt_at s fpts from \<longrightarrow> Suc from \<le> k) \<and>
        FindMatchedData fpts s from (length fpts) =
          Some (if dt_at s fpts k > 10 then - 1 else int k))"
proof
  assume f: "from < length fpts"
  from FindMatchedData_spec [OF f, of s] obtain k where
    k: "FindMatchedData_loop s fpts (length fpts) (dt_at s fpts from) from (Suc from) = Some k"
    "from \<le> k" "k < length fpts"
    "\<forall>m. from \<le> m \<and> m < k \<longrightarrow> dt_at s fpts (Suc m) \<le> dt_at s fpts m"
    "Suc k < length fpts \<longrightarrow> dt_at s fpts k < dt_at s fpts (Suc k)"
    "FindMatchedData fpts s from (length fpts) = Some (if dt_at s fpts k > 10 then - 1 else int k)"
    by blast
  have tie: "Suc from \<le> k"
    if "Suc from < length fpts \<and> dt_at s fpts (Suc from) = dt_at s fpts from"
  proof (rule ccontr)
    assume "\<not> Suc from \<le> k"
    with k(2) have "k = from" by simp
    with k(5) that show False by simp
  qed
  from k tie show "\<exists>k. FindMatchedData_loop s fpts (length fpts) (dt_at s fpts from) from (Suc from) = Some k \<and>
        from \<le> k \<and> k < length fpts \<and>
        (\<forall>m. from \<le> m \<and> m < k \<longrightarrow> dt_at s fpts (Suc m) \<le> dt_at s fpts m) \<and>
        (Suc k < length fpts \<longrightarrow> dt_at s fpts k < dt_at s fpts (Suc k)) \<and>
        (Suc from < length fpts \<and> dt_at s fpts (Suc from) = dt_at s fpts from \<longrightarrow> Suc from \<le> k) \<and>
        FindMatchedData fpts s from (length fpts) =
          Some (if dt_at s fpts k > 10 then - 1 else int k)"
    by blast
qed

theorem C7_scan_stops_at_first_increase_witness:
  "0 < length [sample 0, sample 10] \<and>
   FindMatchedData [sample 0, sample 10] 5 0 (length [sample 0, sample 10]) = Some 1"
proof -
  have h: "0 < length [sample 0, sample 10]" by simp
  have t: "Suc 0 < length [sample 0, sample 10] \<and>
      dt_at 5 [sample 0, sample 10] (Suc 0) = dt_at 5 [sample 0, sample 10] 0"
    by (simp add: dt_at_def sample_def)
  from C7_scan_stops_at_first_increase [of 0 "[sample 0, sample 10]" 5] h t
  obtain k where k: "k < length [sample 0, sample 10]" "Suc 0 \<le> k"
    "FindMatchedData [sample 0, sample 10] 5 0 (length [sample 0, sample 10]) =
       Some (if dt_at 5 [sample 0, sample 10] k > 10 then - 1 else int k)"
    by blast
  from k(1,2) have "k = 1" by simp
  with k(3) have "FindMatchedData [sample 0, sample 10] 5 0 (length [sample 0, sample 10]) = Some 1"
    by (simp add: dt_at_def sample_def)
  with h show ?thesis by blast
qed

text \<open>
  C10: whenever the FFoV series is not empty, the scan returns one result record per emitted
  pair, in increasing order of the JFoV index; the record of the pair \<open>(a, k)\<close> holds the
  right ascension, declination and file name of the JFoV sample \<open>a\<close> and of the FFoV
  sample \<open>k\<close>, unchanged.
\<close>

theorem C10_results_copy_inputs_in_order:
  "pts pt_ffov \<noteq> [] \<longrightarrow>
   (\<exists>ms res. ScanData_matches 0 (pts pt_jfov) (pts pt_ffov) 0 = Some ms \<and>
      ScanData pt_jfov pt_ffov = Some res \<and>
      length res = length ms \<and>
      sorted_wrt (<) (map fst ms) \<and>
      (\<forall>n<length ms.
          fst (ms ! n) < length (pts pt_jfov) \<and> snd (ms ! n) < length (pts pt_ffov) \<and>
          jra (res ! n) = ra (pts pt_jfov ! fst (ms ! n)) \<and>
          jdc (res ! n) = dc (pts pt_jfov ! fst (ms ! n)) \<and>
          jfname (res ! n) = fname (pts pt_jfov ! fst (ms ! n)) \<and>
          ra0 (res ! n) = ra (pts pt_ffov ! snd (ms ! n)) \<and>
          dc0 (res ! n) = dc (pts pt_ffov ! snd (ms ! n)) \<and>
          fname0 (res ! n) = fname (pts pt_ffov ! snd (ms ! n))))"
proof
  assume "pts pt_ffov \<noteq> []"
  hence "0 < length (pts pt_ffov)" by simp
  from ScanData_matches_mono [OF this, of 0 "pts pt_jfov"] obtain ms where
    ms: "ScanData_matches 0 (pts pt_jfov) (pts pt_ffov) 0 = Some ms"
    "sorted_wrt (<) (map fst ms)"
    "\<forall>k\<in>set (map snd ms). 0 \<le> k \<and> k < length (pts pt_ffov)"
    "\<forall>a\<in>set (map fst ms). 0 \<le> a \<and> a < 0 + length (pts pt_jfov)"
    by blast
  define res where "res = map (PointCross_of (pts pt_jfov) (pts pt_ffov)) ms"
  have r: "ScanData pt_jfov pt_ffov = Some res"
    using ms(1) by (simp add: ScanData_as_matches res_def)
  have len: "length res = length ms" by (simp add: res_def)
  have fields: "fst (ms ! n) < length (pts pt_jfov) \<and> snd (ms ! n) < length (pts pt_ffov) \<and>
          jra (res ! n) = ra (pts pt_jfov ! fst (ms ! n)) \<and>
          jdc (res ! n) = dc (pts pt_jfov ! fst (ms ! n)) \<and>
          jfname (res ! n) = fname (pts pt_jfov ! fst (ms ! n)) \<and>
          ra0 (res ! n) = ra (pts pt_ffov ! snd (ms ! n)) \<and>
          dc0 (res ! n) = dc (pts pt_ffov ! snd (ms ! n)) \<and>
          fname0 (res ! n) = fname (pts pt_ffov ! snd (ms ! n))" if n: "n < length ms" for n
  proof -
    from n have "ms ! n \<in> set ms" by simp
    hence "fst (ms ! n) \<in> set (map fst ms)" "snd (ms ! n) \<in> set (map snd ms)"
      by simp_all
    with ms(3,4) have b: "fst (ms ! n) < length (pts pt_jfov)" "snd (ms ! n) < length (pts pt_ffov)"
      by auto
    have "res ! n = SetPointRef (SetPoint ptc_fresh (pts pt_jfov ! fst (ms ! n)))
                      (pts pt_ffov ! snd (ms ! n))"
      using n by (simp add: res_def PointCross_of_def case_prod_beta)
    with b show ?thesis
      by (simp add: SetPointRef_SetPoint_fields)
  qed
  from ms(1,2) r len fields
  show "\<exists>ms res. ScanData_matches 0 (pts pt_jfov) (pts pt_ffov) 0 = Some ms \<and>
      ScanData pt_jfov pt_ffov = Some res \<and>
      length res = length ms \<and>
      sorted_wrt (<) (map fst ms) \<and>
      (\<forall>n<length ms.
          fst (ms ! n) < length (pts pt_jfov) \<and> snd (ms ! n) < length (pts pt_ffov) \<and>
          jra (res ! n) = ra (pts pt_jfov ! fst (ms ! n)) \<and>
          jdc (res ! n) = dc (pts pt_jfov ! fst (ms ! n)) \<and>
          jfname (res ! n) = fname (pts pt_jfov ! fst (ms ! n)) \<and>
          ra0 (res ! n) = ra (pts pt_ffov ! snd (ms ! n)) \<and>
          dc0 (res ! n) = dc (pts pt_ffov ! snd (ms ! n)) \<and>
          fname0 (res ! n) = fname (pts pt_ffov ! snd (ms ! n)))"
    by blast
qed

theorem C10_results_copy_inputs_in_order_witness:
  "pts ffov_demo \<noteq> [] \<and>
   (\<exists>res. ScanData jfov_demo ffov_demo = Some res \<and> length res = 1 \<and>
      jra (res ! 0) = 10.5 \<and> jdc (res ! 0) = 20.5 \<and>
      jfname (res ! 0) = ''G021_objt_171028T01010100.fit'' \<and>
      ra0 (res ! 0) = 11.4 \<and> dc0 (res ! 0) = 21.4 \<and>
      fname0 (res ! 0) = ''G020_objt_171028T01010500.fit'')"
proof -
  have h: "pts ffov_demo \<noteq> []" by (simp add: ffov_demo_def)
  from C10_results_copy_inputs_in_order [of ffov_demo jfov_demo] h
  obtain ms res where
    r: "ScanData_matches 0 (pts jfov_demo) (pts ffov_demo) 0 = Some ms"
    "ScanData jfov_demo ffov_demo = Some res" "length res = length ms"
    "\<forall>n<length ms.
          fst (ms ! n) < length (pts jfov_demo) \<and> snd (ms ! n) < length (pts ffov_demo) \<and>
          jra (res ! n) = ra (pts jfov_demo ! fst (ms ! n)) \<and>
          jdc (res ! n) = dc (pts jfov_demo ! fst (ms ! n)) \<and>
          jfname (res ! n) = fname (pts jfov_demo ! fst (ms ! n)) \<and>
          ra0 (res ! n) = ra (pts ffov_demo ! snd (ms ! n)) \<and>
          dc0 (res ! n) = dc (pts ffov_demo ! snd (ms ! n)) \<and>
          fname0 (res ! n) = fname (pts ffov_demo ! snd (ms ! n))"
    by blast
  from r(1) demo_matches have ms: "ms = [(1, 2)]" by simp
  from r(4) [rule_format, of 0] ms have
    "jra (res ! 0) = ra (pts jfov_demo ! 1) \<and>
     jdc (res ! 0) = dc (pts jfov_demo ! 1) \<and>
     jfname (res ! 0) = fname (pts jfov_demo ! 1) \<and>
     ra0 (res ! 0) = ra (pts ffov_demo ! 2) \<and>
     dc0 (res ! 0) = dc (pts ffov_demo ! 2) \<and>
     fname0 (res ! 0) = fname (pts ffov_demo ! 2)"
    by simp
  hence "jra (res ! 0) = 10.5 \<and> jdc (res ! 0) = 20.5 \<and>
      jfname (res ! 0) = ''G021_objt_171028T01010100.fit'' \<and>
      ra0 (res ! 0) = 11.4 \<and> dc0 (res ! 0) = 21.4 \<and>
      fname0 (res ! 0) = ''G020_objt_171028T01010500.fit''"
    by (simp add: jfov_demo_def ffov_demo_def)
  with h r(2,3) ms show ?thesis by auto
qed

subsection \<open>Unwrapping the rotation for the statistics\<close>

lemma stats_loop_0: "st_rot (stats_loop pt_cross 0) = rot (pt_cross ! 0)"
  by (simp add: stats_loop_def stats_init_def)

lemma stats_loop_Suc:
  "i < length pt_cross \<Longrightarrow>
   st_rot (stats_loop pt_cross (Suc i)) = unwrap_rot (st_rot (stats_loop pt_cross i)) (rot (pt_cross ! i))"
  by (simp add: stats_loop_def take_Suc_conv_app_nth stats_step_def Let_def)

lemma unwrap_rot_candidates: "unwrap_rot u r \<in> {r, r - 360, r + 360}"
  by (simp add: unwrap_rot_def Let_def)

lemma unwrap_rot_near:
  "\<bar>r - u\<bar> \<le> 180 \<or> \<bar>r - 360 - u\<bar> \<le> 180 \<or> \<bar>r + 360 - u\<bar> \<le> 180 \<Longrightarrow> \<bar>unwrap_rot u r - u\<bar> \<le> 180"
  by (auto simp: unwrap_rot_def Let_def)

lemma unwrap_rot_self: "unwrap_rot r r = r"
  by (simp add: unwrap_rot_def)

text \<open>
  C8 (as stated, refuted): for every sequence of raw rotations in \<open>[0,360)\<close> each unwrapped
  value would be within 180 degrees of the previous one. For the raw rotations 0, 200, 100,
  350 the unwrapped values are 0, -160, -260, -10: the last one is 250 degrees from its
  predecessor (none of 350, -10, 710 is within 180 degrees of -260).
\<close>

theorem C8_unwrapped_within_180_counterexample:
  "\<not> \<bar>st_rot (stats_loop (map with_rot [0, 200, 100, 350]) 4) -
       st_rot (stats_loop (map with_rot [0, 200, 100, 350]) 3)\<bar> \<le> 180"
  by (simp add: stats_loop_def stats_init_def stats_step_def unwrap_rot_def with_rot_def Let_def)

text \<open>
  C8 (amended): the running unwrapped rotation is seeded with the first result's raw
  rotation and is that raw rotation after the first result. For every later result the new
  value is one of rotation, rotation - 360, rotation + 360, and it is within 180 degrees of
  the previous unwrapped value whenever one of these three candidates is; that is the case
  whenever the raw rotation is in \<open>[0,360)\<close> and the previous unwrapped value is in
  \<open>[-180, 540]\<close>.
\<close>

theorem C8_unwrap_picks_candidate_within_180:
  "pt_cross \<noteq> [] \<longrightarrow>
   st_rot (stats_loop pt_cross 0) = rot (pt_cross ! 0) \<and>
   st_rot (stats_loop pt_cross 1) = rot (pt_cross ! 0) \<and>
   (\<forall>i. 0 < i \<and> i < length pt_cross \<longrightarrow>
      (let u = st_rot (stats_loop pt_cross i);
           r = rot (pt_cross ! i);
           u' = st_rot (stats_loop pt_cross (Suc i))
       in u' \<in> {r, r - 360, r + 360} \<and>
          (\<bar>r - u\<bar> \<le> 180 \<or> \<bar>r - 360 - u\<bar> \<le> 180 \<or> \<bar>r + 360 - u\<bar> \<le> 180 \<longrightarrow> \<bar>u' - u\<bar> \<le> 180) \<and>
          (0 \<le> r \<and> r < 360 \<and> - 180 \<le> u \<and> u \<le> 540 \<longrightarrow> \<bar>u' - u\<bar> \<le> 180)))"
proof (intro impI conjI allI)
  show "st_rot (stats_loop pt_cross 0) = rot (pt_cross ! 0)"
    by (rule stats_loop_0)
next
  assume "pt_cross \<noteq> []"
  hence "0 < length pt_cross" by simp
  from stats_loop_Suc [OF this] show "st_rot (stats_loop pt_cross 1) = rot (pt_cross ! 0)"
    by (simp add: stats_loop_0 unwrap_rot_self)
next
  fix i
  assume "0 < i \<and> i < length pt_cross"
  hence i: "i < length pt_cross" by simp
  define u where "u = st_rot (stats_loop pt_cross i)"
  define r where "r = rot (pt_cross ! i)"
  have s: "st_rot (stats_loop pt_cross (Suc i)) = unwrap_rot u r"
    using stats_loop_Suc [OF i] by (simp add: u_def r_def)
  have a: "unwrap_rot u r \<in> {r, r - 360, r + 360}" by (rule unwrap_rot_candidates)
  have b: "\<bar>r - u\<bar> \<le> 180 \<or> \<bar>r - 360 - u\<bar> \<le> 180 \<or> \<bar>r + 360 - u\<bar> \<le> 180 \<longrightarrow> \<bar>unwrap_rot u r - u\<bar> \<le> 180"
    using unwrap_rot_near [of r u] by blast
  have c: "0 \<le> r \<and> r < 360 \<and> - 180 \<le> u \<and> u \<le> 540 \<longrightarrow> \<bar>unwrap_rot u r - u\<bar> \<le> 180"
    by (auto simp: unwrap_rot_def Let_def)
  from a b c show "let u = st_rot (stats_loop pt_cross i);
           r = rot (pt_cross ! i);
           u' = st_rot (stats_loop pt_cross (Suc i))
       in u' \<in> {r, r - 360, r + 360} \<and>
          (\<bar>r - u\<bar> \<le> 180 \<or> \<bar>r - 360 - u\<bar> \<le> 180 \<or> \<bar>r + 360 - u\<bar> \<le> 180 \<longrightarrow> \<bar>u' - u\<bar> \<le> 180) \<and>
          (0 \<le> r \<and> r < 360 \<and> - 180 \<le> u \<and> u \<le> 540 \<longrightarrow> \<bar>u' - u\<bar> \<le> 180)"
    unfolding Let_def s u_def [symmetric] r_def [symmetric] by blast
qed

theorem C8_unwrap_picks_candidate_within_180_witness:
  "map with_rot [350, 10, 30] \<noteq> [] \<and>
   st_rot (stats_loop (map with_rot [350, 10, 30]) 1) = 350 \<and>
   0 \<le> rot (map with_rot [350, 10, 30] ! 1) \<and> rot (map with_rot [350, 10, 30] ! 1) < 360 \<and>
   \<bar>st_rot (stats_loop (map with_rot [350, 10, 30]) 2) -
     st_rot (stats_loop (map with_rot [350, 10, 30]) 1)\<bar> \<le> 180"
proof -
  have h: "map with_rot [350, 10, 30] \<noteq> []" by simp
  have r: "rot (map with_rot [350, 10, 30] ! 1) = 10" by (simp add: with_rot_def)
  from C8_unwrap_picks_candidate_within_180 [of "map with_rot [350, 10, 30]"] h
  have one: "st_rot (stats_loop (map with_rot [350, 10, 30]) 1) = rot (map with_rot [350, 10, 30] ! 0)"
    and all: "\<forall>i. 0 < i \<and> i < length (map with_rot [350, 10, 30]) \<longrightarrow>
      (let u = st_rot (stats_loop (map with_rot [350, 10, 30]) i);
           r = rot (map with_rot [350, 10, 30] ! i);
           u' = st_rot (stats_loop (map with_rot [350, 10, 30]) (Suc i))
       in u' \<in> {r, r - 360, r + 360} \<and>
          (\<bar>r - u\<bar> \<le> 180 \<or> \<bar>r - 360 - u\<bar> \<le> 180 \<or> \<bar>r + 360 - u\<bar> \<le> 180 \<longrightarrow> \<bar>u' - u\<bar> \<le> 180) \<and>
          (0 \<le> r \<and> r < 360 \<and> - 180 \<le> u \<and> u \<le> 540 \<longrightarrow> \<bar>u' - u\<bar> \<le> 180))"
    by blast+
  from one have u: "st_rot (stats_loop (map with_rot [350, 10, 30]) 1) = 350"
    by (simp add: with_rot_def)
  from all [rule_format, of 1] have
    "0 \<le> rot (map with_rot [350, 10, 30] ! 1) \<and> rot (map with_rot [350, 10, 30] ! 1) < 360 \<and>
     - 180 \<le> st_rot (stats_loop (map with_rot [350, 10, 30]) 1) \<and>
     st_rot (stats_loop (map with_rot [350, 10, 30]) 1) \<le> 540 \<longrightarrow>
     \<bar>st_rot (stats_loop (map with_rot [350, 10, 30]) (Suc 1)) -
       st_rot (stats_loop (map with_rot [350, 10, 30]) 1)\<bar> \<le> 180"
    by (simp add: Let_def)
  with u r have "\<bar>st_rot (stats_loop (map with_rot [350, 10, 30]) 2) -
     st_rot (stats_loop (map with_rot [350, 10, 30]) 1)\<bar> \<le> 180"
    by (simp add: numeral_2_eq_2)
  with h u r show ?thesis by simp
qed

subsection \<open>Date checks before the scan\<close>

lemma TimeCheck_loop_spec:
  "i \<le> n \<Longrightarrow> (TimeCheck_loop ps n y i = n) = (\<forall>k. i \<le> k \<and> k < n \<longrightarrow> ymd (ps ! k) = y)"
proof (induction ps n y i rule: TimeCheck_loop.induct)
  case (1 ps n y i)
  show ?case
  proof (cases "i < n \<and> y = ymd (ps ! i)")
    case True
    have e: "TimeCheck_loop ps n y i = TimeCheck_loop ps n y (Suc i)"
      using True by (subst TimeCheck_loop.simps) simp
    from True have "Suc i \<le> n" by simp
    from 1(1) [OF True this] have
      "(TimeCheck_loop ps n y (Suc i) = n) = (\<forall>k. Suc i \<le> k \<and> k < n \<longrightarrow> ymd (ps ! k) = y)" .
    moreover have "(\<forall>k. Suc i \<le> k \<and> k < n \<longrightarrow> ymd (ps ! k) = y) =
        (\<forall>k. i \<le> k \<and> k < n \<longrightarrow> ymd (ps ! k) = y)"
    proof
      assume a: "\<forall>k. Suc i \<le> k \<and> k < n \<longrightarrow> ymd (ps ! k) = y"
      show "\<forall>k. i \<le> k \<and> k < n \<longrightarrow> ymd (ps ! k) = y"
      proof (intro allI impI)
        fix k assume k: "i \<le> k \<and> k < n"
        show "ymd (ps ! k) = y"
        proof (cases "k = i")
          case True with \<open>i < n \<and> y = ymd (ps ! i)\<close> show ?thesis by simp
        next
          case False with k a show ?thesis by simp
        qed
      qed
    next
      assume "\<forall>k. i \<le> k \<and> k < n \<longrightarrow> ymd (ps ! k) = y"
      thus "\<forall>k. Suc i \<le> k \<and> k < n \<longrightarrow> ymd (ps ! k) = y" by simp
    qed
    ultimately show ?thesis using e by simp
  next
    case False
    have e: "TimeCheck_loop ps n y i = i"
      by (subst TimeCheck_loop.simps) (simp only: False if_False)
    show ?thesis
    proof (cases "i < n")
      case True
      with False have "ymd (ps ! i) \<noteq> y" by auto
      with True e show ?thesis by auto
    next
      case False
      with 1(2) e show ?thesis by simp
    qed
  qed
qed

lemma TimeCheck_single_date:
  "pts ptf \<noteq> [] \<Longrightarrow> TimeCheck ptf = Some (single_date (pts ptf))"
proof -
  assume ne: "pts ptf \<noteq> []"
  hence "1 \<le> length (pts ptf)" by (cases "pts ptf") simp_all
  from TimeCheck_loop_spec [OF this, of "pts ptf" "ymd (pts ptf ! 0)"]
  have "(TimeCheck_loop (pts ptf) (length (pts ptf)) (ymd (pts ptf ! 0)) 1 = length (pts ptf)) =
      (\<forall>k. 1 \<le> k \<and> k < length (pts ptf) \<longrightarrow> ymd (pts ptf ! k) = ymd (pts ptf ! 0))" .
  also have "\<dots> = single_date (pts ptf)"
    unfolding single_date_def
  proof
    assume a: "\<forall>k. 1 \<le> k \<and> k < length (pts ptf) \<longrightarrow> ymd (pts ptf ! k) = ymd (pts ptf ! 0)"
    show "\<forall>p\<in>set (pts ptf). ymd p = ymd (pts ptf ! 0)"
    proof
      fix p assume "p \<in> set (pts ptf)"
      then obtain k where k: "k < length (pts ptf)" "p = pts ptf ! k"
        by (auto simp: in_set_conv_nth)
      show "ymd p = ymd (pts ptf ! 0)"
      proof (cases "k = 0")
        case True with k show ?thesis by simp
      next
        case False with k a show ?thesis by simp
      qed
    qed
  next
    assume "\<forall>p\<in>set (pts ptf). ymd p = ymd (pts ptf ! 0)"
    thus "\<forall>k. 1 \<le> k \<and> k < length (pts ptf) \<longrightarrow> ymd (pts ptf ! k) = ymd (pts ptf ! 0)"
      by simp
  qed
  finally show ?thesis using ne by (simp add: TimeCheck_def)
qed

text \<open>
  C9: for two non-empty series, if one of them holds samples of more than one calendar date,
  or the dates of their first samples differ, \<^verbatim>\<open>main\<close> returns a negative exit code
  after printing one diagnostic line and doing nothing else: \<^verbatim>\<open>ScanData\<close> is not
  called, nothing is reported and no file is written. When both files were resolved and hold
  one JFoV and one FFoV series, the exit code is -4 and the line is "time range do not match".
\<close>

theorem C9_date_mismatch_aborts:
  "pts pt_jfov \<noteq> [] \<and> pts pt_ffov \<noteq> [] \<and>
   (\<not> single_date (pts pt_jfov) \<or> \<not> single_date (pts pt_ffov) \<or>
    ymd (pts pt_jfov ! 0) \<noteq> ymd (pts pt_ffov ! 0)) \<longrightarrow>
   (\<exists>code msg. main ok1 ok2 bjfov bffov pt_jfov pt_ffov rot0 tilt0 pathDst can_create =
        Some (code, [Print msg]) \<and> code < 0 \<and>
      (ok1 \<and> ok2 \<and> bjfov \<and> bffov \<longrightarrow> code = - 4 \<and> msg = ''time range do not match''))"
proof
  assume a: "pts pt_jfov \<noteq> [] \<and> pts pt_ffov \<noteq> [] \<and>
   (\<not> single_date (pts pt_jfov) \<or> \<not> single_date (pts pt_ffov) \<or>
    ymd (pts pt_jfov ! 0) \<noteq> ymd (pts pt_ffov ! 0))"
  hence tj: "TimeCheck pt_jfov = Some (single_date (pts pt_jfov))"
    and tf: "TimeCheck pt_ffov = Some (single_date (pts pt_ffov))"
    by (simp_all add: TimeCheck_single_date)
  from a have tc: "TimeCrossCheck pt_jfov pt_ffov = Some (ymd (pts pt_ffov ! 0) = ymd (pts pt_jfov ! 0))"
    by (simp add: TimeCrossCheck_def)
  have chk: "and_then (TimeCheck pt_jfov) (and_then (TimeCheck pt_ffov) (TimeCrossCheck pt_jfov pt_ffov)) = Some False"
    using a unfolding tj tf tc and_then_def by (auto split: bool.splits)
  show "\<exists>code msg. main ok1 ok2 bjfov bffov pt_jfov pt_ffov rot0 tilt0 pathDst can_create =
        Some (code, [Print msg]) \<and> code < 0 \<and>
      (ok1 \<and> ok2 \<and> bjfov \<and> bffov \<longrightarrow> code = - 4 \<and> msg = ''time range do not match'')"
    unfolding main_def chk by simp
qed

theorem C9_date_mismatch_aborts_witness:
  "pts \<lparr>cid = ''021'', pts = [sample 86000, (sample 100)\<lparr>ymd := 171029\<rparr>]\<rparr> \<noteq> [] \<and>
   pts ffov_demo \<noteq> [] \<and>
   \<not> single_date (pts \<lparr>cid = ''021'', pts = [sample 86000, (sample 100)\<lparr>ymd := 171029\<rparr>]\<rparr>) \<and>
   main True True True True
     \<lparr>cid = ''021'', pts = [sample 86000, (sample 100)\<lparr>ymd := 171029\<rparr>]\<rparr> ffov_demo 0 0
     ''G021_2353-0001.txt'' True = Some (- 4, [Print ''time range do not match''])"
proof -
  have h: "pts \<lparr>cid = ''021'', pts = [sample 86000, (sample 100)\<lparr>ymd := 171029\<rparr>]\<rparr> \<noteq> [] \<and>
      pts ffov_demo \<noteq> [] \<and>
      \<not> single_date (pts \<lparr>cid = ''021'', pts = [sample 86000, (sample 100)\<lparr>ymd := 171029\<rparr>]\<rparr>)"
    by (simp add: single_date_def sample_def ffov_demo_def)
  from C9_date_mismatch_aborts
    [of "\<lparr>cid = ''021'', pts = [sample 86000, (sample 100)\<lparr>ymd := 171029\<rparr>]\<rparr>" ffov_demo
      True True True True 0 0 "''G021_2353-0001.txt''" True] h
  have "main True True True True
     \<lparr>cid = ''021'', pts = [sample 86000, (sample 100)\<lparr>ymd := 171029\<rparr>]\<rparr> ffov_demo 0 0
     ''G021_2353-0001.txt'' True = Some (- 4, [Print ''time range do not match''])"
    by auto
  with h show ?thesis by blast
qed

subsection \<open>Spherical geometry: lemmas\<close>

lemma atan2_bounds: "- pi < atan2 y x \<and> atan2 y x \<le> pi"
proof -
  have l: "- (pi / 2) < arctan (y / x)" and u: "arctan (y / x) < pi / 2"
    by (rule arctan_lbound, rule arctan_ubound)
  show ?thesis
  proof (cases "0 < x")
    case True
    hence "atan2 y x = arctan (y / x)" by (simp add: atan2_def)
    with l u pi_gt_zero show ?thesis by linarith
  next
    case False
    note nx = this
    show ?thesis
    proof (cases "x < 0")
      case True
      note xn = this
      show ?thesis
      proof (cases "0 \<le> y")
        case True
        with xn have "y / x \<le> 0" by (simp add: divide_nonneg_neg)
        hence "arctan (y / x) \<le> 0" by simp
        moreover have "atan2 y x = arctan (y / x) + pi"
          using True xn nx by (simp add: atan2_def)
        ultimately show ?thesis using l pi_gt_zero by linarith
      next
        case False
        with xn have "0 < y / x" by (simp add: divide_neg_neg)
        hence "0 < arctan (y / x)" by simp
        moreover have "atan2 y x = arctan (y / x) - pi"
          using False xn nx by (simp add: atan2_def)
        ultimately show ?thesis using u pi_gt_zero by linarith
      qed
    next
      case False
      with nx have "x = 0" by simp
      hence "atan2 y x = pi / 2 \<or> atan2 y x = - (pi / 2) \<or> atan2 y x = 0"
        by (simp add: atan2_def)
      then show ?thesis using pi_gt_zero by linarith
    qed
  qed
qed

lemma atan2_right_half: "0 \<le> x \<Longrightarrow> - (pi / 2) \<le> atan2 y x \<and> atan2 y x \<le> pi / 2"
proof -
  assume "0 \<le> x"
  hence "atan2 y x = arctan (y / x) \<or> atan2 y x = pi / 2 \<or> atan2 y x = - (pi / 2) \<or> atan2 y x = 0"
    by (simp add: atan2_def)
  then show ?thesis
    using arctan_lbound [of "y / x"] arctan_ubound [of "y / x"] pi_gt_zero by linarith
qed

lemma atan2_below: "y < 0 \<Longrightarrow> 0 \<le> x \<Longrightarrow> atan2 y x < 0"
proof -
  assume y: "y < 0" and x: "0 \<le> x"
  show ?thesis
  proof (cases "0 < x")
    case True
    with y have "y / x < 0" by (simp add: divide_neg_pos)
    with True show ?thesis by (simp add: atan2_def)
  next
    case False
    with x have "x = 0" by simp
    with y show ?thesis by (simp add: atan2_def)
  qed
qed

lemma PI360_R2D: "PI360 * R2D < 360"
  by (simp add: PI360_def R2D_def)

lemma pi_less_PI360: "pi < PI360"
  using pi_less_4 by (simp add: PI360_def)

lemma Cart2Sphere_ranges:
  assumes "Cart2Sphere x y z = (r, a, b)"
  shows "0 \<le> a" "a < PI360" "- (pi / 2) \<le> b" "b \<le> pi / 2"
proof -
  from assms have a: "a = (if atan2 y x < 0 then atan2 y x + PI360 else atan2 y x)"
    and b: "b = atan2 z (sqrt (x * x + y * y))"
    by (simp_all add: Cart2Sphere_def Let_def)
  from atan2_bounds [of y x] pi_less_PI360 a show "0 \<le> a" "a < PI360"
    by (auto split: if_splits)
  have "0 \<le> sqrt (x * x + y * y)" by simp
  from atan2_right_half [OF this, of z] b show "- (pi / 2) \<le> b" "b \<le> pi / 2"
    by simp_all
qed

lemma SetPointRef_rot_tilt:
  "rot (SetPointRef c pt0) = fst (RotateForward (ra pt0 * D2R) (dc pt0 * D2R) (jra c * D2R) (jdc c * D2R)) * R2D"
  "tilt (SetPointRef c pt0) = 90 - snd (RotateForward (ra pt0 * D2R) (dc pt0 * D2R) (jra c * D2R) (jdc c * D2R)) * R2D"
  by (simp_all add: SetPointRef_def Let_def split: prod.splits)

lemma RotateForward_ranges:
  assumes "RotateForward alpha0 beta0 alpha beta = (a, b)"
  shows "0 \<le> a" "a < PI360" "- (pi / 2) \<le> b" "b \<le> pi / 2"
proof -
  from assms obtain x y z r where "Cart2Sphere x y z = (r, a, b)"
    by (auto simp: RotateForward_def Let_def split: prod.splits)
  from Cart2Sphere_ranges [OF this] show "0 \<le> a" "a < PI360" "- (pi / 2) \<le> b" "b \<le> pi / 2" .
qed

lemma arctan_lower3:
  assumes "0 \<le> x"
  shows "x - x ^ 3 / 3 \<le> arctan x"
proof -
  define f where "f t = arctan t - t + t ^ 3 / 3" for t :: real
  have d: "\<exists>y. DERIV f t :> y \<and> 0 \<le> y" for t
  proof -
    have "DERIV f t :> inverse (1 + t\<^sup>2) - 1 + t\<^sup>2"
      unfolding f_def by (auto intro!: derivative_eq_intros)
    moreover have "inverse (1 + t\<^sup>2) - 1 + t\<^sup>2 = t ^ 4 / (1 + t\<^sup>2)"
    proof -
      have "1 + t\<^sup>2 \<noteq> 0" by (metis add_nonneg_eq_0_iff zero_le_one zero_le_power2 zero_neq_one)
      thus ?thesis by (simp add: field_simps power2_eq_square power4_eq_xxxx)
    qed
    moreover have "0 \<le> t ^ 4 / (1 + t\<^sup>2)"
      by (intro divide_nonneg_nonneg) (simp_all add: add_nonneg_nonneg)
    ultimately show ?thesis by metis
  qed
  from DERIV_nonneg_imp_nondecreasing [OF assms, of f] d have "f 0 \<le> f x" by blast
  thus ?thesis by (simp add: f_def)
qed

lemma arctan_upper5:
  assumes "0 \<le> x"
  shows "arctan x \<le> x - x ^ 3 / 3 + x ^ 5 / 5"
proof -
  define g where "g t = t - t ^ 3 / 3 + t ^ 5 / 5 - arctan t" for t :: real
  have d: "\<exists>y. DERIV g t :> y \<and> 0 \<le> y" for t
  proof -
    have "DERIV g t :> 1 - t\<^sup>2 + t ^ 4 - inverse (1 + t\<^sup>2)"
      unfolding g_def by (auto intro!: derivative_eq_intros)
    moreover have "1 - t\<^sup>2 + t ^ 4 - inverse (1 + t\<^sup>2) = t ^ 6 / (1 + t\<^sup>2)"
    proof -
      have "1 + t\<^sup>2 \<noteq> 0" by (metis add_nonneg_eq_0_iff zero_le_one zero_le_power2 zero_neq_one)
      thus ?thesis by (simp add: field_simps power2_eq_square power4_eq_xxxx power_numeral_reduce)
    qed
    moreover have "0 \<le> t ^ 6 / (1 + t\<^sup>2)"
    proof -
      have "t ^ 6 = (t ^ 3)\<^sup>2" by simp
      hence "0 \<le> t ^ 6" by (metis zero_le_power2)
      thus ?thesis by (intro divide_nonneg_nonneg) (simp_all add: add_nonneg_nonneg)
    qed
    ultimately show ?thesis by metis
  qed
  from DERIV_nonneg_imp_nondecreasing [OF assms, of g] d have "g 0 \<le> g x" by blast
  thus ?thesis by (simp add: g_def)
qed

lemma pi_bounds: "3.14 < pi" "pi < 3.142"
proof -
  have "1 / 5 - (1 / 5) ^ 3 / 3 \<le> arctan (1 / 5)"
    by (rule arctan_lower3) simp
  moreover have "(0.19733 :: real) \<le> 1 / 5 - (1 / 5) ^ 3 / 3" by (simp add: power_divide)
  ultimately have l5: "0.19733 \<le> arctan (1 / 5)" by simp
  have "arctan (1 / 5) \<le> 1 / 5 - (1 / 5) ^ 3 / 3 + (1 / 5) ^ 5 / 5"
    by (rule arctan_upper5) simp
  moreover have "1 / 5 - (1 / 5) ^ 3 / 3 + (1 / 5) ^ 5 / 5 \<le> (0.1973974 :: real)" by (simp add: power_divide)
  ultimately have u5: "arctan (1 / 5) \<le> 0.1973974" by simp
  have "1 / 239 - (1 / 239) ^ 3 / 3 \<le> arctan (1 / 239)"
    by (rule arctan_lower3) simp
  moreover have "(0.004184 :: real) \<le> 1 / 239 - (1 / 239) ^ 3 / 3" by (simp add: power_divide)
  ultimately have l239: "0.004184 \<le> arctan (1 / 239)" by simp
  have "arctan (1 / 239) \<le> 1 / 239 - (1 / 239) ^ 3 / 3 + (1 / 239) ^ 5 / 5"
    by (rule arctan_upper5) simp
  moreover have "1 / 239 - (1 / 239) ^ 3 / 3 + (1 / 239) ^ 5 / 5 \<le> (0.0041842 :: real)" by (simp add: power_divide)
  ultimately have u239: "arctan (1 / 239) \<le> 0.0041842" by simp
  have m: "pi = 16 * arctan (1 / 5) - 4 * arctan (1 / 239)"
    using machin by simp
  from l5 u239 m show "3.14 < pi" by simp
  from u5 l239 m show "pi < 3.142" by simp
qed

lemma cos_neg_second_third: "pi / 2 < x \<Longrightarrow> x < 3 * pi / 2 \<Longrightarrow> cos x < 0"
proof -
  assume "pi / 2 < x" "x < 3 * pi / 2"
  hence "- (pi / 2) < x - pi" "x - pi < pi / 2" by simp_all
  from cos_gt_zero_pi [OF this] show ?thesis by simp
qed

lemma atan2_polar:
  assumes r: "0 < r" and t: "- pi < t" "t \<le> pi"
  shows "atan2 (r * sin t) (r * cos t) = t"
proof -
  consider (mid) "- (pi / 2) < t" "t < pi / 2"
    | (top) "t = pi / 2"
    | (bot) "t = - (pi / 2)"
    | (left_up) "pi / 2 < t"
    | (left_down) "t < - (pi / 2)"
    by linarith
  then show ?thesis
  proof cases
    case mid
    hence c: "0 < cos t" by (rule cos_gt_zero_pi)
    with r have "0 < r * cos t" by simp
    hence "atan2 (r * sin t) (r * cos t) = arctan ((r * sin t) / (r * cos t))"
      by (simp add: atan2_def)
    also have "(r * sin t) / (r * cos t) = tan t"
      using r by (simp add: tan_def)
    also have "arctan (tan t) = t"
      using mid by (rule arctan_tan)
    finally show ?thesis .
  next
    case top
    show ?thesis unfolding top using r by (simp add: atan2_def)
  next
    case bot
    show ?thesis unfolding bot using r by (simp add: atan2_def)
  next
    case left_up
    with t have "cos t < 0" using pi_gt_zero by (intro cos_neg_second_third) simp_all
    with r have x: "r * cos t < 0" by (simp add: mult_pos_neg)
    from left_up t have "0 \<le> sin t" using pi_gt_zero by (intro sin_ge_zero) simp_all
    with r have y: "0 \<le> r * sin t" by simp
    from x y have "atan2 (r * sin t) (r * cos t) = arctan ((r * sin t) / (r * cos t)) + pi"
      by (simp add: atan2_def)
    also have "(r * sin t) / (r * cos t) = tan t"
      using r by (simp add: tan_def)
    also have "tan t = tan (t - pi)"
      using tan_periodic_pi [of "t - pi"] by simp
    also have "arctan (tan (t - pi)) = t - pi"
      using left_up t by (intro arctan_tan) simp_all
    finally show ?thesis by simp
  next
    case left_down
    with t have "pi / 2 < - t" "- t < 3 * pi / 2" using pi_gt_zero by simp_all
    from cos_neg_second_third [OF this] have "cos t < 0" by simp
    with r have x: "r * cos t < 0" by (simp add: mult_pos_neg)
    from left_down t have "0 < sin (- t)" using pi_gt_zero by (intro sin_gt_zero) simp_all
    hence "sin t < 0" by simp
    with r have y: "r * sin t < 0" by (simp add: mult_pos_neg)
    from x y have "atan2 (r * sin t) (r * cos t) = arctan ((r * sin t) / (r * cos t)) - pi"
      by (simp add: atan2_def)
    also have "(r * sin t) / (r * cos t) = tan t"
      using r by (simp add: tan_def)
    also have "tan t = tan (t + pi)"
      by simp
    also have "arctan (tan (t + pi)) = t + pi"
      using left_down t by (intro arctan_tan) simp_all
    finally show ?thesis by simp
  qed
qed

lemma Cart2Sphere_Sphere2Cart:
  assumes lat: "- (pi / 2) < lat" "lat < pi / 2" and lon: "- pi < lon" "lon \<le> pi"
  shows "Cart2Sphere (cos lat * cos lon) (cos lat * sin lon) (sin lat) =
           (1, if lon < 0 then lon + PI360 else lon, lat)"
proof -
  from lat have c: "0 < cos lat" by (rule cos_gt_zero_pi)
  have a: "atan2 (cos lat * sin lon) (cos lat * cos lon) = lon"
    using atan2_polar [OF c lon] .
  have "cos lat * cos lon * (cos lat * cos lon) + cos lat * sin lon * (cos lat * sin lon) =
      (cos lat)\<^sup>2 * ((sin lon)\<^sup>2 + (cos lon)\<^sup>2)"
    by algebra
  hence h: "cos lat * cos lon * (cos lat * cos lon) + cos lat * sin lon * (cos lat * sin lon) =
      (cos lat)\<^sup>2"
    by simp
  hence s: "sqrt (cos lat * cos lon * (cos lat * cos lon) + cos lat * sin lon * (cos lat * sin lon)) = cos lat"
    using c by simp
  have "atan2 (sin lat) (cos lat) = arctan (sin lat / cos lat)"
    using c by (simp add: atan2_def)
  also have "\<dots> = arctan (tan lat)" by (simp add: tan_def)
  also have "\<dots> = lat" using lat by (rule arctan_tan)
  finally have b: "atan2 (sin lat) (cos lat) = lat" .
  have "(cos lat)\<^sup>2 + sin lat * sin lat = 1"
    by (simp add: power2_eq_square [symmetric] add.commute)
  with h have r: "sqrt (cos lat * cos lon * (cos lat * cos lon) + cos lat * sin lon * (cos lat * sin lon) + sin lat * sin lat) = 1"
    by simp
  show ?thesis
    unfolding Cart2Sphere_def Let_def r s a b by simp
qed

lemma RotateForward_north_pole:
  "RotateForward 0 (pi / 2) lon lat =
     (case Cart2Sphere (cos lat * cos lon) (cos lat * sin lon) (sin lat) of (r, a, b) \<Rightarrow> (a, b))"
  by (simp add: RotateForward_def Sphere2Cart_def Let_def)



lemma RotateForward_self: "RotateForward a b a b = (0, pi / 2)"
proof -
  have x: "sin b * cos a * (cos b * cos a) + sin b * sin a * (cos b * sin a) - cos b * sin b = 0"
  proof -
    have "sin b * cos a * (cos b * cos a) + sin b * sin a * (cos b * sin a) - cos b * sin b =
        sin b * cos b * ((sin a)\<^sup>2 + (cos a)\<^sup>2) - cos b * sin b"
      by algebra
    thus ?thesis by simp
  qed
  have y: "- sin a * (cos b * cos a) + cos a * (cos b * sin a) = 0"
    by (simp add: algebra_simps)
  have z: "cos b * cos a * (cos b * cos a) + cos b * sin a * (cos b * sin a) + sin b * sin b = 1"
  proof -
    have "cos b * cos a * (cos b * cos a) + cos b * sin a * (cos b * sin a) + sin b * sin b =
        (cos b)\<^sup>2 * ((sin a)\<^sup>2 + (cos a)\<^sup>2) + (sin b)\<^sup>2"
      by algebra
    thus ?thesis by (simp add: add.commute)
  qed
  have c: "Cart2Sphere 0 0 1 = (1, 0, pi / 2)"
    by (simp add: Cart2Sphere_def Let_def atan2_def)
  show ?thesis
    unfolding RotateForward_def Sphere2Cart_def Let_def
    by (simp only: prod.case mult_1 x y z c)
qed

lemma R2D_half_pi: "89.95 < pi / 2 * R2D" "pi / 2 * R2D < 90.02"
  using pi_bounds by (simp_all add: R2D_def)

lemma tilt_identical:
  "ra pt0 = ra pt \<Longrightarrow> dc pt0 = dc pt \<Longrightarrow>
   tilt (SetPointRef (SetPoint c pt) pt0) = 90 - pi / 2 * R2D"
  by (simp add: SetPointRef_rot_tilt SetPoint_def RotateForward_self)

lemma tilt_identical_bounds:
  assumes "ra pt0 = ra pt" "dc pt0 = dc pt"
  shows "- 0.02 < tilt (SetPointRef (SetPoint c pt) pt0)"
    and "tilt (SetPointRef (SetPoint c pt) pt0) < 0.05"
proof -
  define k where "k = pi / 2 * R2D"
  have k: "89.95 < k" "k < 90.02" using R2D_half_pi by (simp_all only: k_def)
  have "tilt (SetPointRef (SetPoint c pt) pt0) = 90 - k"
    using tilt_identical [OF assms] by (simp only: k_def)
  with k show "- 0.02 < tilt (SetPointRef (SetPoint c pt) pt0)"
    and "tilt (SetPointRef (SetPoint c pt) pt0) < 0.05"
    by simp_all
qed

lemma tilt_range:
  assumes "- (pi / 2) \<le> b" "b \<le> pi / 2"
  shows "- 0.02 < 90 - b * R2D" "90 - b * R2D < 180.02"
proof -
  define k where "k = pi / 2 * R2D"
  have k: "k < 90.02" using R2D_half_pi(2) by (simp only: k_def)
  have pos: "0 \<le> R2D" by (simp add: R2D_def)
  have "b * R2D \<le> pi / 2 * R2D" using assms(2) pos by (rule mult_right_mono)
  hence u: "b * R2D \<le> k" by (simp only: k_def)
  have "- (pi / 2) * R2D \<le> b * R2D" using assms(1) pos by (rule mult_right_mono)
  moreover have "- (pi / 2) * R2D = - k" by (simp only: k_def mult_minus_left)
  ultimately have l: "- k \<le> b * R2D" by simp
  from u k show "- 0.02 < 90 - b * R2D" by simp
  from l k show "90 - b * R2D < 180.02" by simp
qed

lemma snd_RotateForward_equator:
  "snd (RotateForward a0 0 0 0) = atan2 (cos a0) (sqrt (sin a0 * sin a0))"
  by (simp add: RotateForward_def Sphere2Cart_def Cart2Sphere_def Let_def)

lemma sin_atan2_unit:
  assumes s: "0 \<le> s" and u: "z * z + s * s = 1"
  shows "sin (atan2 z s) = z"
proof (cases "0 < s")
  case True
  hence a: "atan2 z s = arctan (z / s)" by (simp add: atan2_def)
  have "1 + (z / s)\<^sup>2 = (z * z + s * s) / (s * s)"
    using True by (simp add: power2_eq_square field_simps)
  also have "\<dots> = 1 / (s * s)" by (simp only: u)
  finally have "sqrt (1 + (z / s)\<^sup>2) = 1 / s"
    using True by (simp add: real_sqrt_divide)
  hence "sin (arctan (z / s)) = (z / s) / (1 / s)"
    by (simp only: sin_arctan)
  also have "\<dots> = z" using True by simp
  finally show ?thesis by (simp only: a)
next
  case False
  with s have s0: "s = 0" by simp
  with u have "z * z = 1" by simp
  hence "z = 1 \<or> z = - 1" by (simp add: square_eq_1_iff power2_eq_square [symmetric] power2_eq_1_iff)
  then show ?thesis
  proof
    assume "z = 1"
    with s0 show ?thesis by (simp add: atan2_def)
  next
    assume "z = - 1"
    with s0 show ?thesis by (simp add: atan2_def)
  qed
qed

lemma rotation_keeps_norm:
  fixes sa ca sb cb x y z :: real
  assumes a: "sa * sa + ca * ca = 1" and b: "sb * sb + cb * cb = 1"
  shows "(sb * ca * x + sb * sa * y - cb * z) * (sb * ca * x + sb * sa * y - cb * z) +
         (- sa * x + ca * y) * (- sa * x + ca * y) +
         (cb * ca * x + cb * sa * y + sb * z) * (cb * ca * x + cb * sa * y + sb * z) =
         x * x + y * y + z * z"
proof -
  have "(sb * ca * x + sb * sa * y - cb * z) * (sb * ca * x + sb * sa * y - cb * z) +
         (- sa * x + ca * y) * (- sa * x + ca * y) +
         (cb * ca * x + cb * sa * y + sb * z) * (cb * ca * x + cb * sa * y + sb * z) =
        (sb * sb + cb * cb) * ((ca * x + sa * y) * (ca * x + sa * y) + z * z) +
        (sa * sa + ca * ca) * (x * x + y * y) - (ca * x + sa * y) * (ca * x + sa * y)"
    by algebra
  also have "\<dots> = x * x + y * y + z * z"
    by (simp only: a b) simp
  finally show ?thesis .
qed

lemma sin_cos_unit: "sin t * sin t + cos t * cos t = (1::real)"
  using sin_cos_squared_add [of t] by (simp add: power2_eq_square)

lemma sphere_unit:
  "cos b * cos a * (cos b * cos a) + cos b * sin a * (cos b * sin a) + sin b * sin b = (1::real)"
proof -
  have "cos b * cos a * (cos b * cos a) + cos b * sin a * (cos b * sin a) + sin b * sin b =
      cos b * cos b * (sin a * sin a + cos a * cos a) + sin b * sin b"
    by algebra
  also have "\<dots> = cos b * cos b * 1 + sin b * sin b"
    by (simp only: sin_cos_unit [of a])
  also have "\<dots> = 1" using sin_cos_unit [of b] by simp
  finally show ?thesis .
qed

lemma RotateForward_sin_latitude:
  "sin (snd (RotateForward a0 b0 a b)) = sin b0 * sin b + cos b0 * cos b * cos (a - a0)"
proof -
  define x1 where "x1 = cos b * cos a"
  define y1 where "y1 = cos b * sin a"
  define z1 where "z1 = sin b"
  define x2 where "x2 = sin b0 * cos a0 * x1 + sin b0 * sin a0 * y1 - cos b0 * z1"
  define y2 where "y2 = - sin a0 * x1 + cos a0 * y1"
  define z2 where "z2 = cos b0 * cos a0 * x1 + cos b0 * sin a0 * y1 + sin b0 * z1"
  define s where "s = sqrt (x2 * x2 + y2 * y2)"
  have lat: "snd (RotateForward a0 b0 a b) = atan2 z2 s"
    by (simp add: RotateForward_def Sphere2Cart_def Cart2Sphere_def Let_def
        x1_def y1_def z1_def x2_def y2_def z2_def s_def)
  have "x2 * x2 + y2 * y2 + z2 * z2 = x1 * x1 + y1 * y1 + z1 * z1"
    unfolding x2_def y2_def z2_def
    by (rule rotation_keeps_norm [OF sin_cos_unit sin_cos_unit])
  also have "\<dots> = 1"
    unfolding x1_def y1_def z1_def by (rule sphere_unit)
  finally have n: "x2 * x2 + y2 * y2 + z2 * z2 = 1" .
  have s0: "0 \<le> s" by (simp add: s_def)
  have "0 \<le> x2 * x2 + y2 * y2" by simp
  hence "s * s = x2 * x2 + y2 * y2" by (simp add: s_def)
  with n have u: "z2 * z2 + s * s = 1" by simp
  have sn: "sin (atan2 z2 s) = z2" using s0 u by (rule sin_atan2_unit)
  have "z2 = sin b0 * sin b + cos b0 * cos b * (cos a * cos a0 + sin a * sin a0)"
    unfolding z2_def x1_def y1_def z1_def by algebra
  hence "z2 = sin b0 * sin b + cos b0 * cos b * cos (a - a0)"
    by (simp only: cos_diff)
  with lat sn show ?thesis by simp
qed

lemma RotateForward_snd_range:
  "- (pi / 2) \<le> snd (RotateForward a0 b0 a b) \<and> snd (RotateForward a0 b0 a b) \<le> pi / 2"
proof -
  obtain lon lat where e: "RotateForward a0 b0 a b = (lon, lat)"
    by (cases "RotateForward a0 b0 a b")
  from RotateForward_ranges(3,4) [OF e] show ?thesis by (simp add: e)
qed

lemma RotateForward_fst_range:
  "0 \<le> fst (RotateForward a0 b0 a b) \<and> fst (RotateForward a0 b0 a b) < PI360"
proof -
  obtain lon lat where e: "RotateForward a0 b0 a b = (lon, lat)"
    by (cases "RotateForward a0 b0 a b")
  from RotateForward_ranges(1,2) [OF e] show ?thesis by (simp add: e)
qed

text \<open>
  In exact arithmetic the frame that changes nothing is the one whose pole has latitude
  \<open>pi / 2\<close> (no \<^verbatim>\<open>double\<close> has that value, so the program only comes close to it).
\<close>

lemma RotateForward_north_pole_noop:
  "(- (pi / 2) < lat \<and> lat < pi / 2 \<and> 0 \<le> lon \<and> lon \<le> pi \<longrightarrow>
      RotateForward 0 (pi / 2) lon lat = (lon, lat)) \<and>
   (- (pi / 2) < lat \<and> lat < pi / 2 \<and> pi < lon \<and> lon < 2 * pi \<longrightarrow>
      RotateForward 0 (pi / 2) lon lat = (lon - 2 * pi + PI360, lat))"
proof (intro conjI impI)
  assume a: "- (pi / 2) < lat \<and> lat < pi / 2 \<and> 0 \<le> lon \<and> lon \<le> pi"
  hence "- pi < lon" using pi_gt_zero by linarith
  with a have "Cart2Sphere (cos lat * cos lon) (cos lat * sin lon) (sin lat) =
           (1, if lon < 0 then lon + PI360 else lon, lat)"
    by (intro Cart2Sphere_Sphere2Cart) simp_all
  with a show "RotateForward 0 (pi / 2) lon lat = (lon, lat)"
    by (simp add: RotateForward_north_pole)
next
  assume a: "- (pi / 2) < lat \<and> lat < pi / 2 \<and> pi < lon \<and> lon < 2 * pi"
  define t where "t = lon - 2 * pi"
  have t: "- pi < t" "t < 0" "t \<le> pi" using a pi_gt_zero by (simp_all add: t_def)
  have sc: "sin lon = sin t" "cos lon = cos t"
    using sin_periodic [of t] cos_periodic [of t] by (simp_all add: t_def)
  from a t have "Cart2Sphere (cos lat * cos t) (cos lat * sin t) (sin lat) =
           (1, if t < 0 then t + PI360 else t, lat)"
    by (intro Cart2Sphere_Sphere2Cart) simp_all
  with t(2) show "RotateForward 0 (pi / 2) lon lat = (lon - 2 * pi + PI360, lat)"
    by (simp add: RotateForward_north_pole sc) (simp add: t_def)
qed

subsection \<open>Rotation and tilt of a result\<close>

text \<open>
  C1 (as stated, refuted): the tilt of every result would lie in \<open>[-90, 90]\<close>. A JFoV
  pointing at right ascension 0, declination 0 matched to an FFoV pointing at right
  ascension 120, declination 0 has a negative latitude in the FFoV-centred frame, so that its
  tilt, 90 minus that latitude, is above 90 (the two pointings are 120 degrees apart).
\<close>

theorem C1_tilt_within_90_counterexample:
  "\<not> (- 90 \<le> tilt (SetPointRef (SetPoint ptc_fresh (sample 0)) ((sample 0)\<lparr>ra := 120\<rparr>)) \<and>
      tilt (SetPointRef (SetPoint ptc_fresh (sample 0)) ((sample 0)\<lparr>ra := 120\<rparr>)) \<le> 90)"
proof -
  have t: "tilt (SetPointRef (SetPoint ptc_fresh (sample 0)) ((sample 0)\<lparr>ra := 120\<rparr>)) =
      90 - atan2 (cos (120 * D2R)) (sqrt (sin (120 * D2R) * sin (120 * D2R))) * R2D"
    using snd_RotateForward_equator [of "120 * D2R"]
    by (simp add: SetPointRef_rot_tilt SetPoint_def sample_def ptc_fresh_def)
  have "pi / 2 < 120 * D2R" "120 * D2R < 3 * pi / 2"
    using pi_bounds by (simp_all add: D2R_def)
  hence "cos (120 * D2R) < 0" by (rule cos_neg_second_third)
  hence "atan2 (cos (120 * D2R)) (sqrt (sin (120 * D2R) * sin (120 * D2R))) < 0"
    by (rule atan2_below) simp
  moreover have "0 < R2D" by (simp add: R2D_def)
  ultimately have "atan2 (cos (120 * D2R)) (sqrt (sin (120 * D2R) * sin (120 * D2R))) * R2D < 0"
    by (rule mult_neg_pos)
  with t show ?thesis by simp
qed

text \<open>
  C1 (amended): for every result of \<^verbatim>\<open>SetPointRef\<close> the rotation lies in the closed
  interval \<open>[0, 360]\<close> and the tilt in \<open>[0, 180]\<close> up to the rounding of \<open>R2D\<close>
  (here: in \<open>(-0.02, 180.02)\<close>). Rotation and tilt are \<open>R2D\<close> times the longitude and 90
  minus \<open>R2D\<close> times the latitude that \<^verbatim>\<open>RotateForward\<close> returns for the JFoV pointing
  in the frame of the FFoV pointing, and that latitude is the one in \<open>[-pi/2, pi/2]\<close> whose
  sine is the cosine of the angle between the two pointings: the tilt is the angular
  distance of the JFoV pointing from the FFoV pointing. The model gives a rotation strictly
  below 360; the bound stated is the closed one, since the program can round
  \<^verbatim>\<open>alpha + PI360\<close> to \<^verbatim>\<open>PI360\<close> and \<^verbatim>\<open>PI360 * R2D\<close> to 360.0.
\<close>

theorem C1_rotation_range_and_tilt_colatitude:
  "(let a0 = ra pt0 * D2R; b0 = dc pt0 * D2R; a = jra c * D2R; b = jdc c * D2R;
        lon = fst (RotateForward a0 b0 a b);
        lat = snd (RotateForward a0 b0 a b)
    in rot (SetPointRef c pt0) = lon * R2D \<and>
       tilt (SetPointRef c pt0) = 90 - lat * R2D \<and>
       - (pi / 2) \<le> lat \<and> lat \<le> pi / 2 \<and>
       sin lat = sin b0 * sin b + cos b0 * cos b * cos (a - a0)) \<and>
   0 \<le> rot (SetPointRef c pt0) \<and> rot (SetPointRef c pt0) \<le> 360 \<and>
   - 0.02 < tilt (SetPointRef c pt0) \<and> tilt (SetPointRef c pt0) < 180.02"
proof -
  define lon where "lon = fst (RotateForward (ra pt0 * D2R) (dc pt0 * D2R) (jra c * D2R) (jdc c * D2R))"
  define lat where "lat = snd (RotateForward (ra pt0 * D2R) (dc pt0 * D2R) (jra c * D2R) (jdc c * D2R))"
  have r: "rot (SetPointRef c pt0) = lon * R2D" and t: "tilt (SetPointRef c pt0) = 90 - lat * R2D"
    by (simp_all add: SetPointRef_rot_tilt lon_def lat_def)
  have lr: "- (pi / 2) \<le> lat" "lat \<le> pi / 2"
    using RotateForward_snd_range [of "ra pt0 * D2R" "dc pt0 * D2R" "jra c * D2R" "jdc c * D2R"]
    by (simp_all add: lat_def)
  have sl: "sin lat = sin (dc pt0 * D2R) * sin (jdc c * D2R) +
      cos (dc pt0 * D2R) * cos (jdc c * D2R) * cos (jra c * D2R - ra pt0 * D2R)"
    unfolding lat_def by (rule RotateForward_sin_latitude)
  have fr: "0 \<le> lon" "lon < PI360"
    using RotateForward_fst_range [of "ra pt0 * D2R" "dc pt0 * D2R" "jra c * D2R" "jdc c * D2R"]
    by (simp_all add: lon_def)
  have pos: "0 < R2D" by (simp add: R2D_def)
  have r0: "0 \<le> lon * R2D" using fr(1) pos by simp
  have "lon * R2D < PI360 * R2D" using fr(2) pos by simp
  hence r1: "lon * R2D \<le> 360" using PI360_R2D by simp
  note t0 = tilt_range(1) [OF lr] and t1 = tilt_range(2) [OF lr]
  have main: "rot (SetPointRef c pt0) = lon * R2D \<and>
       tilt (SetPointRef c pt0) = 90 - lat * R2D \<and>
       - (pi / 2) \<le> lat \<and> lat \<le> pi / 2 \<and>
       sin lat = sin (dc pt0 * D2R) * sin (jdc c * D2R) +
         cos (dc pt0 * D2R) * cos (jdc c * D2R) * cos (jra c * D2R - ra pt0 * D2R)"
    using r t lr sl by blast
  have rng: "0 \<le> rot (SetPointRef c pt0) \<and> rot (SetPointRef c pt0) \<le> 360 \<and>
      - 0.02 < tilt (SetPointRef c pt0) \<and> tilt (SetPointRef c pt0) < 180.02"
    using r0 r1 t0 t1 unfolding r t by blast
  from main rng show ?thesis
    unfolding Let_def lon_def lat_def by blast
qed

text \<open>
  C2 (as stated, refuted): for a JFoV pointing matched to an identical FFoV pointing (right
  ascension 10, declination 20 for both) the tilt would be about 90 degrees. It is more than
  89 degrees away from 90: the point is the pole of the rotated frame, its latitude there is
  90 degrees, and the tilt is 90 minus that.
\<close>

theorem C2_identical_pointing_tilt_counterexample:
  "\<not> \<bar>tilt (SetPointRef (SetPoint ptc_fresh ((sample 3661)\<lparr>ra := 10, dc := 20\<rparr>))
            ((sample 3661)\<lparr>ra := 10, dc := 20\<rparr>)) - 90\<bar> < 89"
  using tilt_identical_bounds(2)
    [of "(sample 3661)\<lparr>ra := 10, dc := 20\<rparr>" "(sample 3661)\<lparr>ra := 10, dc := 20\<rparr>" ptc_fresh]
  by simp

text \<open>
  C2 (amended): when the FFoV sample has the right ascension and declination of the JFoV
  sample, the tilt is \<open>90 - pi / 2 * R2D\<close>, which is 0 up to the rounding of \<open>R2D\<close>
  (its absolute value is below 0.05 by the bounds on \<open>pi\<close> proved here).
\<close>

theorem C2_identical_pointing_tilt_zero:
  "ra pt0 = ra pt \<and> dc pt0 = dc pt \<longrightarrow>
   tilt (SetPointRef (SetPoint c pt) pt0) = 90 - pi / 2 * R2D \<and>
   \<bar>tilt (SetPointRef (SetPoint c pt) pt0)\<bar> < 0.05"
proof
  assume "ra pt0 = ra pt \<and> dc pt0 = dc pt"
  hence e: "ra pt0 = ra pt" "dc pt0 = dc pt" by simp_all
  from tilt_identical_bounds [OF e, of c]
  have "\<bar>tilt (SetPointRef (SetPoint c pt) pt0)\<bar> < 0.05" by simp
  with tilt_identical [OF e, of c]
  show "tilt (SetPointRef (SetPoint c pt) pt0) = 90 - pi / 2 * R2D \<and>
   \<bar>tilt (SetPointRef (SetPoint c pt) pt0)\<bar> < 0.05"
    by blast
qed

theorem C2_identical_pointing_tilt_zero_witness:
  "ra ((sample 3665)\<lparr>ra := 10, dc := 20\<rparr>) = ra ((sample 3661)\<lparr>ra := 10, dc := 20\<rparr>) \<and>
   dc ((sample 3665)\<lparr>ra := 10, dc := 20\<rparr>) = dc ((sample 3661)\<lparr>ra := 10, dc := 20\<rparr>) \<and>
   \<bar>tilt (SetPointRef (SetPoint ptc_fresh ((sample 3661)\<lparr>ra := 10, dc := 20\<rparr>))
            ((sample 3665)\<lparr>ra := 10, dc := 20\<rparr>))\<bar> < 0.05"
proof -
  have h: "ra ((sample 3665)\<lparr>ra := 10, dc := 20\<rparr>) = ra ((sample 3661)\<lparr>ra := 10, dc := 20\<rparr>) \<and>
      dc ((sample 3665)\<lparr>ra := 10, dc := 20\<rparr>) = dc ((sample 3661)\<lparr>ra := 10, dc := 20\<rparr>)"
    by simp
  from C2_identical_pointing_tilt_zero
    [of "(sample 3665)\<lparr>ra := 10, dc := 20\<rparr>" "(sample 3661)\<lparr>ra := 10, dc := 20\<rparr>" ptc_fresh] h
  have "\<bar>tilt (SetPointRef (SetPoint ptc_fresh ((sample 3661)\<lparr>ra := 10, dc := 20\<rparr>))
            ((sample 3665)\<lparr>ra := 10, dc := 20\<rparr>))\<bar> < 0.05"
    by blast
  with h show ?thesis by blast
qed



end
